theory Spec2Isabelle
  imports Main "HOL-Library.Sublist" "HOL-Library.AList" "HOL-Library.Multiset"
begin

section \<open>Text primitives used by the connector\<close>

text \<open>
  Python strings are modelled as \<^typ>\<open>string\<close>. The two characters of the escape
  sequence that \<^verbatim>\<open>json_prompt\<close> removes are a backslash followed by an ampersand.
\<close>

definition esc_amp :: string where
  "esc_amp = [CHR 0x5C, CHR ''&'']"

text \<open>\<^verbatim>\<open>sub in s\<close>: does \<open>sub\<close> occur as a contiguous piece of \<open>s\<close>?\<close>

fun str_contains :: "string \<Rightarrow> string \<Rightarrow> bool" where
  "str_contains sub [] = (sub = [])"
| "str_contains sub (c # cs) = (prefix sub (c # cs) \<or> str_contains sub cs)"

text \<open>
  \<^verbatim>\<open>resp.replace("\\&", "&")\<close>: one left-to-right pass that replaces every
  non-overlapping occurrence of the two-character sequence by a single ampersand.
\<close>

fun replace_esc_amp :: "string \<Rightarrow> string" where
  "replace_esc_amp (a # b # cs) =
     (if a = CHR 0x5C \<and> b = CHR ''&'' then CHR ''&'' # replace_esc_amp cs
      else a # replace_esc_amp (b # cs))"
| "replace_esc_amp cs = cs"

lemma length_replace_esc_amp_le: "length (replace_esc_amp s) \<le> length s"
  by (induction s rule: replace_esc_amp.induct) auto

lemma length_replace_esc_amp_less:
  "str_contains esc_amp s \<Longrightarrow> length (replace_esc_amp s) < length s"
proof (induction s rule: replace_esc_amp.induct)
  case (1 a b cs)
  show ?case
  proof (cases "a = CHR 0x5C \<and> b = CHR ''&''")
    case True
    have "length (replace_esc_amp cs) \<le> length cs"
      by (rule length_replace_esc_amp_le)
    with True show ?thesis by simp
  next
    case False
    with "1.prems" have "str_contains esc_amp (b # cs)"
      by (auto simp: esc_amp_def)
    with False "1.IH"(2) have "length (replace_esc_amp (b # cs)) < length (b # cs)"
      by blast
    moreover from False have "replace_esc_amp (a # b # cs) = a # replace_esc_amp (b # cs)"
      by auto
    ultimately show ?thesis by simp
  qed
qed (auto simp: esc_amp_def)

text \<open>
  The loop \<^verbatim>\<open>while "\\&" in resp: resp = resp.replace("\\&", "&")\<close>.
  Every pass over a string that still holds the sequence shortens it, so the loop ends.
\<close>

function normalize_amp :: "string \<Rightarrow> string" where
  "normalize_amp resp =
     (if str_contains esc_amp resp then normalize_amp (replace_esc_amp resp) else resp)"
  by pat_completeness auto
termination
  by (relation "measure length") (auto simp: length_replace_esc_amp_less)

declare normalize_amp.simps [simp del]

lemma str_contains_sublist: "str_contains sub s = sublist sub s"
  by (induction s) (auto simp: sublist_Cons_right)

lemma normalize_amp_clean: "\<not> str_contains esc_amp (normalize_amp s)"
proof (induction s rule: normalize_amp.induct)
  case (1 resp)
  then show ?case
    by (cases "str_contains esc_amp resp") (simp_all add: normalize_amp.simps [of resp])
qed

lemma normalize_amp_noop: "\<not> str_contains esc_amp s \<Longrightarrow> normalize_amp s = s"
  by (simp add: normalize_amp.simps [of s])


section \<open>Locating the candidate JSON span\<close>

text \<open>
  \<^verbatim>\<open>re.search("{[^}]*}", resp)\<close>. \<open>match_here\<close> tries the pattern at the start of
  the text: an opening brace, then as many characters other than a closing brace as there
  are, then a closing brace. \<open>re_search\<close> tries every start position from the left and
  returns the first match (\<^verbatim>\<open>resp.group(0)\<close>), or \<open>None\<close>.
\<close>

fun match_here :: "string \<Rightarrow> string option" where
  "match_here [] = None"
| "match_here (c # cs) =
     (if c = CHR ''{'' then
        (let body = takeWhile (\<lambda>x. x \<noteq> CHR ''}'') cs
         in if length body < length cs then Some (c # body @ [CHR ''}'']) else None)
      else None)"

fun re_search :: "string \<Rightarrow> string option" where
  "re_search [] = None"
| "re_search (c # cs) =
     (case match_here (c # cs) of Some m \<Rightarrow> Some m | None \<Rightarrow> re_search cs)"

section \<open>Exceptions, messages and output formats\<close>

text \<open>
  \<open>ValueError\<close> is the class that \<^verbatim>\<open>json_prompt\<close> catches (pydantic's validation
  error is one of its subclasses); \<open>OtherError\<close> stands for every exception of another
  class, such as what the chat client or the file system raises. The argument is the text
  of the exception.
\<close>

datatype py_exception = ValueError string | OtherError string

record message =
  role :: string
  content :: string

text \<open>
  The functions of the Python libraries that the code calls and that are not part of the
  repository: \<^verbatim>\<open>json.dumps\<close> on a string, \<^verbatim>\<open>repr\<close> on a string,
  \<^verbatim>\<open>str.lower\<close>, and pydantic's \<^verbatim>\<open>BaseModel.model_validate_json\<close> for a model
  with the two string fields \<^verbatim>\<open>reason\<close> and \<^verbatim>\<open>fundamental_genre\<close> (\<open>Inl\<close>
  carries the text of its validation error).
\<close>

record ClassifyGenreOutput =
  reason :: string
  fundamental_genre :: string

record pylib =
  json_dumps_str :: "string \<Rightarrow> string"
  repr_str :: "string \<Rightarrow> string"
  str_lower :: "string \<Rightarrow> string"
  base_model_validate_json :: "string \<Rightarrow> string + ClassifyGenreOutput"

text \<open>\<^verbatim>\<open>sep.join(xs)\<close>\<close>

fun join :: "string \<Rightarrow> string list \<Rightarrow> string" where
  "join sep [] = []"
| "join sep [x] = x"
| "join sep (x # y # ys) = x @ sep @ join sep (y # ys)"

text \<open>\<^verbatim>\<open>json.dumps\<close> of a \<^verbatim>\<open>dict[str, str]\<close> with the default separators.\<close>

definition json_dumps_dict :: "pylib \<Rightarrow> (string \<times> string) list \<Rightarrow> string" where
  "json_dumps_dict L d =
     ''{'' @ join '', '' (map (\<lambda>(k, v). json_dumps_str L k @ '': '' @ json_dumps_str L v) d) @ ''}''"

text \<open>\<^verbatim>\<open>json.dumps(xs, indent=2)\<close> of a \<^verbatim>\<open>list[str]\<close>.\<close>

definition json_dumps_list_indent2 :: "pylib \<Rightarrow> string list \<Rightarrow> string" where
  "json_dumps_list_indent2 L xs =
     (if xs = [] then ''[]''
      else ''['' @ [CHR 0x0A] @
           join ('','' @ [CHR 0x0A]) (map (\<lambda>x. ''  '' @ json_dumps_str L x) xs) @
           [CHR 0x0A] @ '']'')"

text \<open>\<^verbatim>\<open>str(xs)\<close> of a \<^verbatim>\<open>list[str]\<close>, as an f-string prints it.\<close>

definition str_of_list :: "pylib \<Rightarrow> string list \<Rightarrow> string" where
  "str_of_list L xs = ''['' @ join '', '' (map (repr_str L) xs) @ '']''"

text \<open>
  A subclass of \<^verbatim>\<open>JsonOutputFormat\<close> is what its two methods do: the static
  \<^verbatim>\<open>fields()\<close> (here \<open>format_fields\<close>) and \<^verbatim>\<open>model_validate_json\<close>. \<open>'r\<close> is the type of the
  validated result.
\<close>

record 'r JsonOutputFormat =
  format_fields :: "(string \<times> string) list"
  model_validate_json :: "string \<Rightarrow> py_exception + 'r"

text \<open>
  \<^verbatim>\<open>ClassifyGenreOutput.model_validate_json\<close>. \<open>genres\<close> is the module-level
  \<^verbatim>\<open>cfg.fundamental_genres\<close>, read from \<^verbatim>\<open>config.json\<close>.
\<close>

definition invalid_genre_text :: "pylib \<Rightarrow> string list \<Rightarrow> string \<Rightarrow> string" where
  "invalid_genre_text L genres g =
     ''Invalid fundamental genre: '' @ g @ ''. Choose from '' @ str_of_list L genres"

definition ClassifyGenreOutput_model_validate_json ::
  "pylib \<Rightarrow> string list \<Rightarrow> string \<Rightarrow> py_exception + ClassifyGenreOutput" where
  "ClassifyGenreOutput_model_validate_json L genres json_data =
     (case base_model_validate_json L json_data of
        Inl e \<Rightarrow> Inl (ValueError e)
      | Inr s0 \<Rightarrow>
          (let s = s0\<lparr>fundamental_genre := str_lower L (fundamental_genre s0)\<rparr>
           in if fundamental_genre s \<notin> set genres
              then Inl (ValueError (invalid_genre_text L genres (fundamental_genre s)))
              else Inr s))"

definition ClassifyGenreOutput_fields :: "(string \<times> string) list" where
  "ClassifyGenreOutput_fields = [(''reason'', ''str''), (''fundamental_genre'', ''str'')]"

definition ClassifyGenreOutput_format ::
  "pylib \<Rightarrow> string list \<Rightarrow> ClassifyGenreOutput JsonOutputFormat" where
  "ClassifyGenreOutput_format L genres =
     \<lparr>format_fields = ClassifyGenreOutput_fields,
      model_validate_json = ClassifyGenreOutput_model_validate_json L genres\<rparr>"

section \<open>JsonPrompt\<close>

record 'r JsonPrompt =
  output_format :: "'r JsonOutputFormat"
  system_prompt :: "string option"
  msgs :: "message list"

definition add_msg :: "'r JsonPrompt \<Rightarrow> message \<Rightarrow> 'r JsonPrompt" where
  "add_msg p msg = p\<lparr>msgs := msgs p @ [msg]\<rparr>"

definition system_msg_text :: "pylib \<Rightarrow> 'r JsonOutputFormat \<Rightarrow> string" where
  "system_msg_text L fmt =
     ''Do not output any markdown. Do not make any comments. Do not use escape characters.'' @
     [CHR 0x0A, CHR 0x0A] @
     ''Output nothing but a JSON in the following format: '' @ json_dumps_dict L (format_fields fmt)"

definition build_prompt :: "pylib \<Rightarrow> 'r JsonPrompt \<Rightarrow> 'r JsonOutputFormat \<Rightarrow> message list" where
  "build_prompt L p fmt = \<lparr>role = ''system'', content = system_msg_text L fmt\<rparr> # msgs p"

section \<open>LLMConnector\<close>

text \<open>
  The chat client is a function of its own state \<open>'b\<close>, the model name and the messages
  sent; it answers with the text of the reply or raises, and moves to a new state.
  \<open>requests\<close> records every call made to it, oldest first. Calls to the logger are not
  modelled.
\<close>

record 'b LLMConnector =
  cli :: "'b \<Rightarrow> string \<Rightarrow> message list \<Rightarrow> (py_exception + string) \<times> 'b"
  model :: string

record 'b world =
  backend :: 'b
  requests :: "(string \<times> message list) list"

text \<open>The body of the \<^verbatim>\<open>try\<close> block of \<^verbatim>\<open>json_prompt\<close>.\<close>

definition parse_response :: "'r JsonOutputFormat \<Rightarrow> string \<Rightarrow> py_exception + 'r" where
  "parse_response fmt resp =
     (case re_search (normalize_amp resp) of
        None \<Rightarrow> Inl (ValueError ''No JSON found in response.'')
      | Some m \<Rightarrow> model_validate_json fmt m)"

definition correction_text :: "string \<Rightarrow> string" where
  "correction_text e =
     ''That did not work. Here is the error I get: `'' @ e @ ''`. Please try again.''"

text \<open>
  The interpreter bounds the nesting of calls and raises \<^verbatim>\<open>RecursionError\<close>, which is
  not a \<open>ValueError\<close>, when a call would exceed the bound.
\<close>

definition RecursionError :: py_exception where
  "RecursionError = OtherError ''maximum recursion depth exceeded''"

text \<open>
  \<^verbatim>\<open>LLMConnector.json_prompt\<close>. The result holds what the call returns or raises
  (\<open>Inr None\<close> is Python's \<^verbatim>\<open>None\<close>), the prompt as the call leaves it, and the
  world. \<open>max_tries\<close> is a Python \<^verbatim>\<open>int\<close>. \<open>depth\<close> is the number of nested
  calls of \<^verbatim>\<open>json_prompt\<close> for which the call stack still has room: the function
  calls itself once for every retry, and where there is no room left the nested call
  raises \<^verbatim>\<open>RecursionError\<close>.
\<close>

fun json_prompt ::
  "pylib \<Rightarrow> 'b LLMConnector \<Rightarrow> 'r JsonPrompt \<Rightarrow> int \<Rightarrow> nat \<Rightarrow> 'b world \<Rightarrow>
     (py_exception + 'r option) \<times> 'r JsonPrompt \<times> 'b world" where
  "json_prompt L llm prompt max_tries depth w =
     (if max_tries = 0 then (Inr None, prompt, w)
      else
        let payload = build_prompt L prompt (output_format prompt) in
        case cli llm (backend w) (model llm) payload of
          (answer, b') \<Rightarrow>
            let w' = \<lparr>backend = b', requests = requests w @ [(model llm, payload)]\<rparr> in
            case answer of
              Inl e \<Rightarrow> (Inl e, prompt, w')
            | Inr resp \<Rightarrow>
                let prompt' = add_msg prompt \<lparr>role = ''assistant'', content = resp\<rparr> in
                case parse_response (output_format prompt') resp of
                  Inr out \<Rightarrow> (Inr (Some out), prompt', w')
                | Inl (ValueError e) \<Rightarrow>
                    let prompt'' = add_msg prompt' \<lparr>role = ''user'', content = correction_text e\<rparr> in
                    (case depth of
                       0 \<Rightarrow> (Inl RecursionError, prompt'', w')
                     | Suc d \<Rightarrow> json_prompt L llm prompt'' (max_tries - 1) d w')
                | Inl other \<Rightarrow> (Inl other, prompt', w'))"

declare json_prompt.simps [simp del]

section \<open>classify_genres\<close>

text \<open>The content of the user message that opens the conversation about one sub-genre.\<close>

definition classify_request :: "pylib \<Rightarrow> string list \<Rightarrow> string \<Rightarrow> string" where
  "classify_request L fundamental_genres genre =
     ''You are tasked with classifying sub-genres of music into their respective fundamental genres.'' @
     [CHR 0x0A, CHR 0x0A] @
     ''Here is a list of the fundamental genres:'' @ [CHR 0x0A] @
     json_dumps_list_indent2 L fundamental_genres @ [CHR 0x0A, CHR 0x0A] @
     ''You must first give your reasoning for why the sub-genre belongs to the fundamental genre.'' @
     [CHR 0x0A, CHR 0x0A] @
     ''Then, you must output the exact fundamental genre that the sub-genre belongs to. Do not change case or spelling.'' @
     [CHR 0x0A, CHR 0x0A] @
     ''Classify the sub-genre: '' @ [CHR 0x22] @ genre @ [CHR 0x22]"

definition new_prompt ::
  "pylib \<Rightarrow> string list \<Rightarrow> string list \<Rightarrow> string \<Rightarrow> ClassifyGenreOutput JsonPrompt" where
  "new_prompt L cfg_genres fundamental_genres genre =
     \<lparr>output_format = ClassifyGenreOutput_format L cfg_genres,
      system_prompt = Some [],
      msgs = [\<lparr>role = ''user'', content = classify_request L fundamental_genres genre\<rparr>]\<rparr>"

text \<open>
  The \<^verbatim>\<open>for\<close> loop of \<^verbatim>\<open>classify_genres\<close>. The dictionary \<^verbatim>\<open>classifed\<close> is
  an association list in insertion order: assigning to a key that is present replaces its
  value in place, assigning to a new key appends, which is what \<open>AList.update\<close> does.
  \<open>cfg_genres\<close> is the module-level \<^verbatim>\<open>cfg.fundamental_genres\<close> that the
  validation reads. An exception of \<^verbatim>\<open>json_prompt\<close> is not caught and ends the
  loop. \<open>depth\<close> is the room on the call stack at each call of \<^verbatim>\<open>json_prompt\<close>, with
  the default budget of 20. The calls to \<^verbatim>\<open>print\<close> are not modelled.
\<close>

fun classify_loop ::
  "pylib \<Rightarrow> 'b LLMConnector \<Rightarrow> string list \<Rightarrow> string list \<Rightarrow> nat \<Rightarrow>
     (string \<times> string option) list \<Rightarrow> string list \<Rightarrow> 'b world \<Rightarrow>
     (py_exception + (string \<times> string option) list) \<times> 'b world" where
  "classify_loop L llm cfg_genres fundamental_genres depth classifed [] w = (Inr classifed, w)"
| "classify_loop L llm cfg_genres fundamental_genres depth classifed (genre # rest) w =
     (case json_prompt L llm (new_prompt L cfg_genres fundamental_genres genre) 20 depth w of
        (Inl e, _, w') \<Rightarrow> (Inl e, w')
      | (Inr None, _, w') \<Rightarrow>
          classify_loop L llm cfg_genres fundamental_genres depth
            (AList.update genre None classifed) rest w'
      | (Inr (Some output), _, w') \<Rightarrow>
          classify_loop L llm cfg_genres fundamental_genres depth
            (AList.update genre (Some (fundamental_genre output)) classifed) rest w')"

definition classify_genres ::
  "pylib \<Rightarrow> string list \<Rightarrow> nat \<Rightarrow> string list \<Rightarrow> string list \<Rightarrow> 'b LLMConnector \<Rightarrow> 'b world \<Rightarrow>
     (py_exception + (string \<times> string option) list) \<times> 'b world" where
  "classify_genres L cfg_genres depth all_genres fundamental_genres llm w =
     classify_loop L llm cfg_genres fundamental_genres depth [] all_genres w"

section \<open>SpotifySongSpan.load_history\<close>

text \<open>
  \<open>ts\<close> is a \<^verbatim>\<open>datetime\<close>; the timestamps of an export all carry a time zone, so
  they are points on one time line, ordered as integers are (microseconds).
\<close>

record SpotifySongSpan =
  ts :: int
  platform :: string
  ms_played :: int
  conn_country :: string
  ip_addr :: "string option"
  master_metadata_track_name :: "string option"
  master_metadata_album_artist_name :: "string option"
  master_metadata_album_album_name :: "string option"
  spotify_track_uri :: "string option"
  episode_name :: "string option"
  episode_show_name :: "string option"
  spotify_episode_uri :: "string option"
  reason_start :: "string option"
  reason_end :: "string option"
  shuffle :: bool
  skipped :: "bool option"
  offline :: "bool option"
  offline_timestamp :: "int option"
  incognito_mode :: bool

text \<open>
  What the function reads from outside: \<^verbatim>\<open>os.listdir\<close>, the items of the document
  that \<^verbatim>\<open>json.load\<close> reads from the file at a path (\<open>'d\<close> is the type of such an
  item), and the construction \<^verbatim>\<open>SpotifySongSpan(**d)\<close>. Each may raise.
\<close>

record 'd filesystem =
  listdir :: "string \<Rightarrow> py_exception + string list"
  json_load :: "string \<Rightarrow> py_exception + 'd list"
  construct :: "'d \<Rightarrow> py_exception + SpotifySongSpan"

text \<open>\<^verbatim>\<open>[SpotifySongSpan(**d) for d in data]\<close>\<close>

fun construct_all :: "'d filesystem \<Rightarrow> 'd list \<Rightarrow> py_exception + SpotifySongSpan list" where
  "construct_all fs [] = Inr []"
| "construct_all fs (d # ds) =
     (case construct fs d of
        Inl e \<Rightarrow> Inl e
      | Inr x \<Rightarrow> (case construct_all fs ds of Inl e \<Rightarrow> Inl e | Inr xs \<Rightarrow> Inr (x # xs)))"

text \<open>The loop over the files, with \<^verbatim>\<open>songs\<close> as accumulator.\<close>

fun load_files ::
  "'d filesystem \<Rightarrow> string \<Rightarrow> string list \<Rightarrow> SpotifySongSpan list \<Rightarrow>
     py_exception + SpotifySongSpan list" where
  "load_files fs dir [] songs = Inr songs"
| "load_files fs dir (f # files) songs =
     (case json_load fs (dir @ ''/'' @ f) of
        Inl e \<Rightarrow> Inl e
      | Inr data \<Rightarrow>
          (case construct_all fs data of
             Inl e \<Rightarrow> Inl e
           | Inr spans \<Rightarrow> load_files fs dir files (songs @ spans)))"

text \<open>
  \<^verbatim>\<open>songs.sort(key=lambda x: x.ts)\<close> is a stable sort by \<open>ts\<close>, as \<open>sort_key ts\<close> is.
\<close>

definition load_history :: "'d filesystem \<Rightarrow> string \<Rightarrow> py_exception + SpotifySongSpan list" where
  "load_history fs dir =
     (case listdir fs dir of
        Inl e \<Rightarrow> Inl e
      | Inr names \<Rightarrow>
          (case load_files fs dir (filter (suffix ''.json'') names) [] of
             Inl e \<Rightarrow> Inl e
           | Inr songs \<Rightarrow> Inr (sort_key ts songs)))"


section \<open>Examples of collaborators\<close>

text \<open>
  Concrete collaborators on which the theorems below are run: a backend that gives the
  same answer to every request, a backend that answers from a script and raises once the
  script is used up, a validator given by a finite table of documents, and library
  functions that quote without escaping and fold the letters A to Z to lower case.
\<close>

definition constant_cli :: "string \<Rightarrow> unit \<Rightarrow> string \<Rightarrow> message list \<Rightarrow> (py_exception + string) \<times> unit" where
  "constant_cli answer b mdl ms = (Inr answer, b)"

definition scripted_cli ::
  "string list \<Rightarrow> string \<Rightarrow> message list \<Rightarrow> (py_exception + string) \<times> string list" where
  "scripted_cli script mdl ms =
     (case script of
        [] \<Rightarrow> (Inl (OtherError ''connection refused''), [])
      | r # rs \<Rightarrow> (Inr r, rs))"

definition table_validate ::
  "(string \<times> ClassifyGenreOutput) list \<Rightarrow> string \<Rightarrow> string + ClassifyGenreOutput" where
  "table_validate tbl j = (case map_of tbl j of None \<Rightarrow> Inl ''Invalid JSON'' | Some out \<Rightarrow> Inr out)"

definition ascii_lower_char :: "char \<Rightarrow> char" where
  "ascii_lower_char c =
     (let n = (of_char c :: nat) in if 65 \<le> n \<and> n \<le> 90 then char_of (n + 32) else c)"

definition ascii_lower :: "string \<Rightarrow> string" where
  "ascii_lower s = map ascii_lower_char s"

definition example_lib :: "(string \<times> ClassifyGenreOutput) list \<Rightarrow> pylib" where
  "example_lib tbl =
     \<lparr>json_dumps_str = (\<lambda>s. CHR 0x22 # s @ [CHR 0x22]),
      repr_str = (\<lambda>s. CHR 0x27 # s @ [CHR 0x27]),
      str_lower = ascii_lower,
      base_model_validate_json = table_validate tbl\<rparr>"

text \<open>
  Following the words of the specification: two labels differ at most in the case of their
  letters, that is, \<^verbatim>\<open>str.lower\<close> gives the same for both.
\<close>

definition eq_ignore_case :: "pylib \<Rightarrow> string \<Rightarrow> string \<Rightarrow> bool" where
  "eq_ignore_case L a b \<longleftrightarrow> str_lower L a = str_lower L b"

text \<open>
  The JSON document with the two fields, and the table of the documents that the example
  validator knows.
\<close>

definition example_doc :: "string \<Rightarrow> string \<Rightarrow> string" where
  "example_doc r g =
     ''{'' @ [CHR 0x22] @ ''reason'' @ [CHR 0x22] @ '': '' @ [CHR 0x22] @ r @ [CHR 0x22] @ '', '' @
     [CHR 0x22] @ ''fundamental_genre'' @ [CHR 0x22] @ '': '' @ [CHR 0x22] @ g @ [CHR 0x22] @ ''}''"

definition example_table :: "(string \<times> ClassifyGenreOutput) list" where
  "example_table =
     [(example_doc ''x'' ''ROCK'', \<lparr>reason = ''x'', fundamental_genre = ''ROCK''\<rparr>),
      (example_doc ''x'' ''Rock'', \<lparr>reason = ''x'', fundamental_genre = ''Rock''\<rparr>),
      (example_doc ''x'' ''jazz'', \<lparr>reason = ''x'', fundamental_genre = ''jazz''\<rparr>)]"


text \<open>An example of a span, and a directory with two history files and one other file.\<close>

definition example_span :: "int \<Rightarrow> SpotifySongSpan" where
  "example_span t =
     \<lparr>ts = t, platform = ''android'', ms_played = 1000, conn_country = ''NZ'',
      ip_addr = None, master_metadata_track_name = Some ''Song'',
      master_metadata_album_artist_name = Some ''Artist'',
      master_metadata_album_album_name = Some ''Album'',
      spotify_track_uri = Some ''spotify:track:abc'', episode_name = None,
      episode_show_name = None, spotify_episode_uri = None, reason_start = None,
      reason_end = None, shuffle = False, skipped = None, offline = None,
      offline_timestamp = None, incognito_mode = False\<rparr>"

definition example_fs :: "int filesystem" where
  "example_fs =
     \<lparr>listdir = (\<lambda>d. if d = ''data'' then Inr [''b.json'', ''notes.txt'', ''a.json'']
                      else Inl (OtherError ''No such file or directory'')),
      json_load = (\<lambda>path. if path = ''data/b.json'' then Inr [30, 10]
                          else if path = ''data/a.json'' then Inr [20]
                          else Inl (OtherError ''No such file or directory'')),
      construct = (\<lambda>t. Inr (example_span t))\<rparr>"

section \<open>One attempt of json_prompt\<close>

lemma output_format_add_msg [simp]: "output_format (add_msg p m) = output_format p"
  by (simp add: add_msg_def)

lemma msgs_add_msg [simp]: "msgs (add_msg p m) = msgs p @ [m]"
  by (simp add: add_msg_def)

text \<open>The world after one more request, and the prompt after one rejected answer.\<close>

definition after_call :: "pylib \<Rightarrow> 'b LLMConnector \<Rightarrow> 'r JsonPrompt \<Rightarrow> 'b world \<Rightarrow> 'b \<Rightarrow> 'b world" where
  "after_call L llm p w b' =
     \<lparr>backend = b', requests = requests w @ [(model llm, build_prompt L p (output_format p))]\<rparr>"

definition after_reject :: "'r JsonPrompt \<Rightarrow> string \<Rightarrow> string \<Rightarrow> 'r JsonPrompt" where
  "after_reject p resp e =
     add_msg (add_msg p \<lparr>role = ''assistant'', content = resp\<rparr>)
       \<lparr>role = ''user'', content = correction_text e\<rparr>"

lemma after_reject_simps [simp]:
  "output_format (after_reject p resp e) = output_format p"
  "msgs (after_reject p resp e) =
     msgs p @ [\<lparr>role = ''assistant'', content = resp\<rparr>, \<lparr>role = ''user'', content = correction_text e\<rparr>]"
  by (simp_all add: after_reject_def)

lemma after_call_simps [simp]:
  "requests (after_call L llm p w b') = requests w @ [(model llm, build_prompt L p (output_format p))]"
  "backend (after_call L llm p w b') = b'"
  by (simp_all add: after_call_def)

lemma json_prompt_zero: "json_prompt L llm p 0 depth w = (Inr None, p, w)"
  by (subst json_prompt.simps) simp

lemma json_prompt_raises:
  assumes "max_tries \<noteq> 0"
    and "cli llm (backend w) (model llm) (build_prompt L p (output_format p)) = (Inl e, b')"
  shows "json_prompt L llm p max_tries depth w = (Inl e, p, after_call L llm p w b')"
  using assms by (subst json_prompt.simps) (simp add: after_call_def)

lemma json_prompt_accepts:
  assumes "max_tries \<noteq> 0"
    and "cli llm (backend w) (model llm) (build_prompt L p (output_format p)) = (Inr resp, b')"
    and "parse_response (output_format p) resp = Inr out"
  shows "json_prompt L llm p max_tries depth w =
           (Inr (Some out), add_msg p \<lparr>role = ''assistant'', content = resp\<rparr>,
            after_call L llm p w b')"
  using assms by (subst json_prompt.simps) (simp add: after_call_def)

lemma json_prompt_rejects:
  assumes "max_tries \<noteq> 0"
    and "cli llm (backend w) (model llm) (build_prompt L p (output_format p)) = (Inr resp, b')"
    and "parse_response (output_format p) resp = Inl (ValueError e)"
  shows "json_prompt L llm p max_tries (Suc d) w =
           json_prompt L llm (after_reject p resp e) (max_tries - 1) d (after_call L llm p w b')"
  using assms by (subst json_prompt.simps) (simp add: after_call_def after_reject_def)

lemma json_prompt_overflow:
  assumes "max_tries \<noteq> 0"
    and "cli llm (backend w) (model llm) (build_prompt L p (output_format p)) = (Inr resp, b')"
    and "parse_response (output_format p) resp = Inl (ValueError e)"
  shows "json_prompt L llm p max_tries 0 w =
           (Inl RecursionError, after_reject p resp e, after_call L llm p w b')"
  using assms by (subst json_prompt.simps) (simp add: after_call_def after_reject_def)

lemma json_prompt_other:
  assumes "max_tries \<noteq> 0"
    and "cli llm (backend w) (model llm) (build_prompt L p (output_format p)) = (Inr resp, b')"
    and "parse_response (output_format p) resp = Inl (OtherError e)"
  shows "json_prompt L llm p max_tries depth w =
           (Inl (OtherError e), add_msg p \<lparr>role = ''assistant'', content = resp\<rparr>,
            after_call L llm p w b')"
  using assms by (subst json_prompt.simps) (simp add: after_call_def)

lemma json_prompt_step_cases [consumes 1, case_names raises accepts rejects overflow other]:
  assumes "max_tries \<noteq> 0"
  obtains
    (raises) e b' where
      "cli llm (backend w) (model llm) (build_prompt L p (output_format p)) = (Inl e, b')"
      "json_prompt L llm p max_tries depth w = (Inl e, p, after_call L llm p w b')"
  | (accepts) resp b' out where
      "cli llm (backend w) (model llm) (build_prompt L p (output_format p)) = (Inr resp, b')"
      "parse_response (output_format p) resp = Inr out"
      "json_prompt L llm p max_tries depth w =
         (Inr (Some out), add_msg p \<lparr>role = ''assistant'', content = resp\<rparr>,
          after_call L llm p w b')"
  | (rejects) resp b' e d where
      "cli llm (backend w) (model llm) (build_prompt L p (output_format p)) = (Inr resp, b')"
      "parse_response (output_format p) resp = Inl (ValueError e)"
      "depth = Suc d"
      "json_prompt L llm p max_tries depth w =
         json_prompt L llm (after_reject p resp e) (max_tries - 1) d (after_call L llm p w b')"
  | (overflow) resp b' e where
      "cli llm (backend w) (model llm) (build_prompt L p (output_format p)) = (Inr resp, b')"
      "parse_response (output_format p) resp = Inl (ValueError e)"
      "depth = 0"
      "json_prompt L llm p max_tries depth w =
         (Inl RecursionError, after_reject p resp e, after_call L llm p w b')"
  | (other) resp b' e where
      "cli llm (backend w) (model llm) (build_prompt L p (output_format p)) = (Inr resp, b')"
      "parse_response (output_format p) resp = Inl (OtherError e)"
      "json_prompt L llm p max_tries depth w =
         (Inl (OtherError e), add_msg p \<lparr>role = ''assistant'', content = resp\<rparr>,
          after_call L llm p w b')"
proof -
  obtain answer b' where
    c: "cli llm (backend w) (model llm) (build_prompt L p (output_format p)) = (answer, b')"
    by (cases "cli llm (backend w) (model llm) (build_prompt L p (output_format p))")
  show thesis
  proof (cases answer)
    case (Inl e)
    with c assms show thesis
      by (intro raises [of e b']) (simp_all add: json_prompt_raises)
  next
    case (Inr resp)
    note r = Inr
    show thesis
    proof (cases "parse_response (output_format p) resp")
      case (Inr out)
      with c r assms show thesis
        by (intro accepts [of resp b' out]) (simp_all add: json_prompt_accepts)
    next
      case (Inl x)
      show thesis
      proof (cases x)
        case (ValueError e)
        show thesis
        proof (cases depth)
          case 0
          with ValueError Inl c r assms show thesis
            by (intro overflow [of resp b' e]) (simp_all add: json_prompt_overflow)
        next
          case (Suc d)
          with ValueError Inl c r assms show thesis
            by (intro rejects [of resp b' e d]) (simp_all add: json_prompt_rejects)
        qed
      next
        case (OtherError e)
        with Inl c r assms show thesis
          by (intro other [of resp b' e]) (simp_all add: json_prompt_other)
      qed
    qed
  qed
qed

text \<open>Whatever a run returns, it only appended assistant and user messages.\<close>

lemma json_prompt_appends:
  assumes "json_prompt L llm p max_tries depth w = (r, p', w')"
  shows "output_format p' = output_format p \<and>
         (\<exists>added. msgs p' = msgs p @ added \<and>
            (\<forall>m \<in> set added. role m = ''assistant'' \<or> role m = ''user''))"
  using assms
proof (induction depth arbitrary: p w max_tries)
  case 0
  show ?case
  proof (cases "max_tries = 0")
    case True
    with "0.prems" show ?thesis by (simp add: json_prompt_zero)
  next
    case False
    then show ?thesis
    proof (cases rule: json_prompt_step_cases [where llm = llm and w = w and L = L and p = p and depth = 0])
      case (rejects resp b' e d)
      then show ?thesis by simp
    qed (use "0.prems" in auto)
  qed
next
  case (Suc depth)
  show ?case
  proof (cases "max_tries = 0")
    case True
    with Suc.prems show ?thesis by (simp add: json_prompt_zero)
  next
    case False
    then show ?thesis
    proof (cases rule: json_prompt_step_cases [where llm = llm and w = w and L = L and p = p and depth = "Suc depth"])
      case (rejects resp b' e d)
      let ?p1 = "after_reject p resp e" and ?w1 = "after_call L llm p w b'"
      from rejects Suc.prems have run: "json_prompt L llm ?p1 (max_tries - 1) depth ?w1 = (r, p', w')"
        by simp
      from Suc.IH [OF run] obtain added where
        "output_format p' = output_format p" "msgs p' = msgs ?p1 @ added"
        "\<forall>m \<in> set added. role m = ''assistant'' \<or> role m = ''user''"
        by auto
      then have "msgs p' = msgs p @ ([\<lparr>role = ''assistant'', content = resp\<rparr>,
                     \<lparr>role = ''user'', content = correction_text e\<rparr>] @ added) \<and>
         (\<forall>m \<in> set ([\<lparr>role = ''assistant'', content = resp\<rparr>,
                     \<lparr>role = ''user'', content = correction_text e\<rparr>] @ added).
             role m = ''assistant'' \<or> role m = ''user'')"
        by simp
      with \<open>output_format p' = output_format p\<close> show ?thesis by blast
    qed (use Suc.prems in auto)
  qed
qed

text \<open>A result that is returned was accepted by the parser of the output format.\<close>

lemma json_prompt_result_parsed:
  assumes "json_prompt L llm p max_tries depth w = (Inr (Some out), p', w')"
  shows "\<exists>resp. parse_response (output_format p) resp = Inr out"
  using assms
proof (induction depth arbitrary: p w max_tries)
  case 0
  show ?case
  proof (cases "max_tries = 0")
    case True
    with "0.prems" show ?thesis by (simp add: json_prompt_zero)
  next
    case False
    then show ?thesis
    proof (cases rule: json_prompt_step_cases [where llm = llm and w = w and L = L and p = p and depth = 0])
      case (rejects resp b' e d)
      then show ?thesis by simp
    qed (use "0.prems" in auto)
  qed
next
  case (Suc depth)
  show ?case
  proof (cases "max_tries = 0")
    case True
    with Suc.prems show ?thesis by (simp add: json_prompt_zero)
  next
    case False
    then show ?thesis
    proof (cases rule: json_prompt_step_cases [where llm = llm and w = w and L = L and p = p and depth = "Suc depth"])
      case (rejects resp b' e d)
      with Suc.prems Suc.IH [of "after_reject p resp e" "max_tries - 1" "after_call L llm p w b'"]
      show ?thesis by simp
    qed (use Suc.prems in auto)
  qed
qed





section \<open>Normalising the response\<close>

lemma normalize_amp_funpow:
  "\<exists>n. normalize_amp s = (replace_esc_amp ^^ n) s \<and>
       (\<forall>i<n. str_contains esc_amp ((replace_esc_amp ^^ i) s))"
proof (induction s rule: normalize_amp.induct)
  case (1 resp)
  show ?case
  proof (cases "str_contains esc_amp resp")
    case False
    then have "normalize_amp resp = (replace_esc_amp ^^ 0) resp"
      by (simp add: normalize_amp_noop)
    then show ?thesis by blast
  next
    case True
    with "1.IH" obtain n where
      n: "normalize_amp (replace_esc_amp resp) = (replace_esc_amp ^^ n) (replace_esc_amp resp)"
      and occ: "\<forall>i<n. str_contains esc_amp ((replace_esc_amp ^^ i) (replace_esc_amp resp))"
      by blast
    from True n have "normalize_amp resp = (replace_esc_amp ^^ Suc n) resp"
      by (simp add: normalize_amp.simps [of resp] funpow_swap1)
    moreover have "str_contains esc_amp ((replace_esc_amp ^^ i) resp)" if "i < Suc n" for i
    proof (cases i)
      case 0
      with True show ?thesis by simp
    next
      case (Suc j)
      with that occ show ?thesis by (simp add: funpow_swap1)
    qed
    ultimately show ?thesis by blast
  qed
qed

text \<open>
  Claim C5. The normalisation is the replacement pass applied again and again, each time to
  a text that still holds a backslash followed by an ampersand, and its result holds none.
  A text without the sequence is returned as it is, so normalising twice is normalising
  once; and the text backslash, ampersand, backslash, ampersand, \<open>text\<close>, backslash,
  ampersand becomes \<open>&&text&\<close>.
\<close>

theorem normalize_amp_removes_all:
  "(\<exists>n. normalize_amp s = (replace_esc_amp ^^ n) s \<and>
        (\<forall>i<n. str_contains esc_amp ((replace_esc_amp ^^ i) s))) \<and>
   \<not> str_contains esc_amp (normalize_amp s) \<and>
   (\<not> str_contains esc_amp s \<longrightarrow> normalize_amp s = s) \<and>
   normalize_amp (normalize_amp s) = normalize_amp s \<and>
   normalize_amp ([CHR 0x5C, CHR ''&'', CHR 0x5C, CHR ''&''] @ ''text'' @ [CHR 0x5C, CHR ''&''])
     = ''&&text&''"
proof -
  have "normalize_amp (normalize_amp s) = normalize_amp s"
    by (rule normalize_amp_noop) (rule normalize_amp_clean)
  moreover have
    "normalize_amp ([CHR 0x5C, CHR ''&'', CHR 0x5C, CHR ''&''] @ ''text'' @ [CHR 0x5C, CHR ''&''])
       = ''&&text&''"
    by (simp add: normalize_amp.simps esc_amp_def)
  ultimately show ?thesis
    using normalize_amp_clean [of s] normalize_amp_noop [of s] normalize_amp_funpow [of s]
    by blast
qed

theorem normalize_amp_removes_all_witness:
  "\<not> str_contains esc_amp ''R&B'' \<and> normalize_amp ''R&B'' = ''R&B'' \<and>
   normalize_amp (normalize_amp ''R&B'') = normalize_amp ''R&B'' \<and>
   \<not> str_contains esc_amp (normalize_amp ''R&B'')"
proof -
  have h: "\<not> str_contains esc_amp ''R&B''"
    by (simp add: esc_amp_def)
  with normalize_amp_removes_all [of "''R&B''"] show ?thesis by simp
qed

section \<open>The candidate span\<close>

lemma match_here_Some_iff:
  "match_here s = Some m \<longleftrightarrow>
     (\<exists>body post. s = CHR ''{'' # body @ CHR ''}'' # post \<and> CHR ''}'' \<notin> set body \<and>
        m = CHR ''{'' # body @ [CHR ''}''])"
proof (cases s)
  case Nil
  then show ?thesis by simp
next
  case (Cons c cs)
  let ?P = "\<lambda>x. x \<noteq> CHR ''}''"
  show ?thesis
  proof
    assume a: "match_here s = Some m"
    with Cons have c: "c = CHR ''{''" and len: "length (takeWhile ?P cs) < length cs"
      and m: "m = c # takeWhile ?P cs @ [CHR ''}'']"
      by (auto simp: Let_def split: if_splits)
    from len have ne: "dropWhile ?P cs \<noteq> []"
      by (metis append_Nil2 less_irrefl takeWhile_dropWhile_id)
    then obtain x post where d: "dropWhile ?P cs = x # post"
      by (cases "dropWhile ?P cs") auto
    with hd_dropWhile [OF ne] have x: "x = CHR ''}''" by simp
    have "cs = takeWhile ?P cs @ dropWhile ?P cs" by simp
    with d x have "cs = takeWhile ?P cs @ CHR ''}'' # post" by simp
    moreover have "CHR ''}'' \<notin> set (takeWhile ?P cs)"
      by (auto dest: set_takeWhileD)
    ultimately show "\<exists>body post. s = CHR ''{'' # body @ CHR ''}'' # post \<and> CHR ''}'' \<notin> set body \<and>
        m = CHR ''{'' # body @ [CHR ''}'']"
      using Cons c m by blast
  next
    assume "\<exists>body post. s = CHR ''{'' # body @ CHR ''}'' # post \<and> CHR ''}'' \<notin> set body \<and>
        m = CHR ''{'' # body @ [CHR ''}'']"
    then obtain body post where s: "s = CHR ''{'' # body @ CHR ''}'' # post"
      and b: "CHR ''}'' \<notin> set body" and m: "m = CHR ''{'' # body @ [CHR ''}'']"
      by blast
    from b have "takeWhile ?P (body @ CHR ''}'' # post) = body"
      by (subst takeWhile_append2) auto
    with s m show "match_here s = Some m" by simp
  qed
qed

lemma match_here_None_brace:
  assumes "match_here (CHR ''{'' # cs) = None"
  shows "CHR ''}'' \<notin> set cs"
proof -
  let ?P = "\<lambda>x. x \<noteq> CHR ''}''"
  from assms have "\<not> length (takeWhile ?P cs) < length cs"
    by (simp add: Let_def split: if_splits)
  then have "length (takeWhile ?P cs) = length cs"
    using length_takeWhile_le [of ?P cs] by simp
  then have "takeWhile ?P cs = cs"
    by (metis append_eq_conv_conj takeWhile_dropWhile_id take_all order_refl)
  then have "\<forall>x \<in> set cs. ?P x"
    by (simp add: takeWhile_eq_all_conv)
  then show ?thesis by blast
qed

lemma re_search_no_opening_brace: "CHR ''{'' \<notin> set s \<Longrightarrow> re_search s = None"
  by (induction s) auto

lemma re_search_Some_iff:
  "re_search s = Some m \<longleftrightarrow>
     (\<exists>pre body post. s = pre @ CHR ''{'' # body @ CHR ''}'' # post \<and>
        CHR ''{'' \<notin> set pre \<and> CHR ''}'' \<notin> set body \<and> m = CHR ''{'' # body @ [CHR ''}''])"
proof (induction s)
  case Nil
  then show ?case by simp
next
  case (Cons c cs)
  show ?case
  proof (cases "match_here (c # cs)")
    case (Some m')
    then obtain body post where
      s: "c # cs = CHR ''{'' # body @ CHR ''}'' # post" and b: "CHR ''}'' \<notin> set body"
      and m': "m' = CHR ''{'' # body @ [CHR ''}'']"
      unfolding match_here_Some_iff by blast
    show ?thesis
    proof
      assume "re_search (c # cs) = Some m"
      with Some have "m = m'" by simp
      with s b m' have "c # cs = [] @ CHR ''{'' # body @ CHR ''}'' # post \<and>
         CHR ''{'' \<notin> set [] \<and> CHR ''}'' \<notin> set body \<and> m = CHR ''{'' # body @ [CHR ''}'']"
        by simp
      then show "\<exists>pre body post. c # cs = pre @ CHR ''{'' # body @ CHR ''}'' # post \<and>
        CHR ''{'' \<notin> set pre \<and> CHR ''}'' \<notin> set body \<and> m = CHR ''{'' # body @ [CHR ''}'']"
        by blast
    next
      assume "\<exists>pre body post. c # cs = pre @ CHR ''{'' # body @ CHR ''}'' # post \<and>
        CHR ''{'' \<notin> set pre \<and> CHR ''}'' \<notin> set body \<and> m = CHR ''{'' # body @ [CHR ''}'']"
      then obtain pre body2 post2 where
        s2: "c # cs = pre @ CHR ''{'' # body2 @ CHR ''}'' # post2"
        and p: "CHR ''{'' \<notin> set pre" and b2: "CHR ''}'' \<notin> set body2"
        and m: "m = CHR ''{'' # body2 @ [CHR ''}'']"
        by blast
      from s have "c = CHR ''{''" by simp
      with s2 p have "pre = []" by (cases pre) auto
      with s2 b2 m have "match_here (c # cs) = Some m"
        unfolding match_here_Some_iff by auto
      then show "re_search (c # cs) = Some m" by simp
    qed
  next
    case None
    then have r: "re_search (c # cs) = re_search cs" by simp
    show ?thesis
    proof
      assume "re_search (c # cs) = Some m"
      with r Cons.IH obtain pre body post where
        "cs = pre @ CHR ''{'' # body @ CHR ''}'' # post" "CHR ''{'' \<notin> set pre"
        "CHR ''}'' \<notin> set body" "m = CHR ''{'' # body @ [CHR ''}'']"
        by auto
      moreover have "c \<noteq> CHR ''{''"
      proof
        assume "c = CHR ''{''"
        with None have "CHR ''}'' \<notin> set cs" by (simp add: match_here_None_brace)
        with calculation(1) show False by simp
      qed
      ultimately have "c # cs = (c # pre) @ CHR ''{'' # body @ CHR ''}'' # post \<and>
         CHR ''{'' \<notin> set (c # pre) \<and> CHR ''}'' \<notin> set body \<and> m = CHR ''{'' # body @ [CHR ''}'']"
        by simp
      then show "\<exists>pre body post. c # cs = pre @ CHR ''{'' # body @ CHR ''}'' # post \<and>
        CHR ''{'' \<notin> set pre \<and> CHR ''}'' \<notin> set body \<and> m = CHR ''{'' # body @ [CHR ''}'']"
        by blast
    next
      assume "\<exists>pre body post. c # cs = pre @ CHR ''{'' # body @ CHR ''}'' # post \<and>
        CHR ''{'' \<notin> set pre \<and> CHR ''}'' \<notin> set body \<and> m = CHR ''{'' # body @ [CHR ''}'']"
      then obtain pre body post where
        s: "c # cs = pre @ CHR ''{'' # body @ CHR ''}'' # post"
        and p: "CHR ''{'' \<notin> set pre" and b: "CHR ''}'' \<notin> set body"
        and m: "m = CHR ''{'' # body @ [CHR ''}'']"
        by blast
      have "pre \<noteq> []"
      proof
        assume "pre = []"
        with s b m have "match_here (c # cs) = Some m"
          unfolding match_here_Some_iff by auto
        with None show False by simp
      qed
      then obtain pre' where "pre = c # pre'" "cs = pre' @ CHR ''{'' # body @ CHR ''}'' # post"
        using s by (cases pre) auto
      with p b m have "re_search cs = Some m"
        unfolding Cons.IH by auto
      with r show "re_search (c # cs) = Some m" by simp
    qed
  qed
qed


lemma match_here_None_iff:
  "match_here (c # cs) = None \<longleftrightarrow> c \<noteq> CHR ''{'' \<or> CHR ''}'' \<notin> set cs"
proof (cases "c = CHR ''{''")
  case False
  then show ?thesis by simp
next
  case True
  have "match_here (CHR ''{'' # cs) = None" if "CHR ''}'' \<notin> set cs"
  proof -
    from that have "takeWhile (\<lambda>x. x \<noteq> CHR ''}'') cs = cs"
      by (subst takeWhile_eq_all_conv) blast
    then have "length (takeWhile (\<lambda>x. x \<noteq> CHR ''}'') cs) = length cs"
      by (rule arg_cong)
    then show ?thesis by (simp add: Let_def)
  qed
  with True match_here_None_brace [of cs] show ?thesis by auto
qed

lemma re_search_None_iff:
  "re_search s = None \<longleftrightarrow> \<not> (\<exists>pre body post. s = pre @ CHR ''{'' # body @ CHR ''}'' # post)"
proof
  assume n: "re_search s = None"
  show "\<not> (\<exists>pre body post. s = pre @ CHR ''{'' # body @ CHR ''}'' # post)"
  proof
    assume "\<exists>pre body post. s = pre @ CHR ''{'' # body @ CHR ''}'' # post"
    then obtain pre body post where "s = pre @ CHR ''{'' # body @ CHR ''}'' # post"
      by blast
    moreover have "re_search (pre @ CHR ''{'' # body @ CHR ''}'' # post) \<noteq> None"
    proof (induction pre)
      case Nil
      have "match_here (CHR ''{'' # body @ CHR ''}'' # post) \<noteq> None"
        unfolding match_here_None_iff by simp
      then show ?case by (auto split: option.splits)
    next
      case (Cons c pre)
      then show ?case by (auto simp del: match_here.simps split: option.splits)
    qed
    ultimately show False using n by simp
  qed
next
  assume "\<not> (\<exists>pre body post. s = pre @ CHR ''{'' # body @ CHR ''}'' # post)"
  then show "re_search s = None"
    using re_search_Some_iff [of s] by (cases "re_search s") blast+
qed

lemma closing_brace_replace_esc_amp:
  "CHR ''}'' \<in> set (replace_esc_amp s) \<longleftrightarrow> CHR ''}'' \<in> set s"
  by (induction s rule: replace_esc_amp.induct) auto

lemma re_search_replace_esc_amp_None:
  "re_search (replace_esc_amp s) = None \<longleftrightarrow> re_search s = None"
proof (induction s rule: replace_esc_amp.induct)
  case (1 a b cs)
  show ?case
  proof (cases "a = CHR 0x5C \<and> b = CHR ''&''")
    case True
    with "1.IH"(1) show ?thesis by simp
  next
    case False
    then have r: "replace_esc_amp (a # b # cs) = a # replace_esc_amp (b # cs)" by auto
    have m: "match_here (a # replace_esc_amp (b # cs)) = None \<longleftrightarrow> match_here (a # b # cs) = None"
      unfolding match_here_None_iff closing_brace_replace_esc_amp ..
    from False "1.IH"(2)
    have ih: "re_search (replace_esc_amp (b # cs)) = None \<longleftrightarrow> re_search (b # cs) = None"
      by blast
    have "re_search (a # xs) = None \<longleftrightarrow> match_here (a # xs) = None \<and> re_search xs = None" for xs
      by (auto simp del: match_here.simps split: option.splits)
    with r m ih show ?thesis by (simp del: match_here.simps re_search.simps replace_esc_amp.simps)
  qed
qed simp_all

lemma re_search_normalize_amp_None:
  "re_search (normalize_amp s) = None \<longleftrightarrow> re_search s = None"
proof (induction s rule: normalize_amp.induct)
  case (1 resp)
  then show ?case
    by (cases "str_contains esc_amp resp")
      (simp_all add: normalize_amp.simps [of resp] re_search_replace_esc_amp_None)
qed

lemma parse_response_no_span:
  assumes "\<not> (\<exists>pre body post. resp = pre @ CHR ''{'' # body @ CHR ''}'' # post)"
  shows "parse_response fmt resp = Inl (ValueError ''No JSON found in response.'')"
proof -
  from assms have "re_search resp = None" by (simp add: re_search_None_iff)
  then have "re_search (normalize_amp resp) = None" by (simp add: re_search_normalize_amp_None)
  then show ?thesis by (simp add: parse_response_def)
qed


text \<open>
  Claim C6. \<open>re_search\<close> returns a span exactly when the text can be cut into a part
  without an opening brace, an opening brace, a part without a closing brace, a closing
  brace and a rest; the span is then the middle, braces included: from the first opening
  brace to the next closing brace. The span found in the normalised response is what is
  validated. A response in which no opening brace is followed by a closing brace is
  rejected with the error \<open>No JSON found in response.\<close>: the attempt is not a success, and
  the run goes on with the correction appended and the budget one lower, or ends in
  \<open>RecursionError\<close> where the stack has no room for the next call.
\<close>

theorem re_search_first_span:
  "(re_search s = Some m \<longleftrightarrow>
      (\<exists>pre body post. s = pre @ CHR ''{'' # body @ CHR ''}'' # post \<and>
         CHR ''{'' \<notin> set pre \<and> CHR ''}'' \<notin> set body \<and> m = CHR ''{'' # body @ [CHR ''}''])) \<and>
   (re_search (normalize_amp resp) = Some m \<longrightarrow>
      parse_response fmt resp = model_validate_json fmt m) \<and>
   (\<not> (\<exists>pre body post. resp = pre @ CHR ''{'' # body @ CHR ''}'' # post) \<longrightarrow>
      parse_response fmt resp = Inl (ValueError ''No JSON found in response.'') \<and>
      (max_tries \<noteq> 0 \<longrightarrow>
       cli llm (backend w) (model llm) (build_prompt L p (output_format p)) = (Inr resp, b') \<longrightarrow>
       json_prompt L llm p max_tries (Suc d) w =
         json_prompt L llm (after_reject p resp ''No JSON found in response.'') (max_tries - 1) d
           (after_call L llm p w b') \<and>
       json_prompt L llm p max_tries 0 w =
         (Inl RecursionError, after_reject p resp ''No JSON found in response.'',
          after_call L llm p w b')))"
proof -
  have "json_prompt L llm p max_tries (Suc d) w =
         json_prompt L llm (after_reject p resp ''No JSON found in response.'') (max_tries - 1) d
           (after_call L llm p w b') \<and>
       json_prompt L llm p max_tries 0 w =
         (Inl RecursionError, after_reject p resp ''No JSON found in response.'',
          after_call L llm p w b')"
    if "\<not> (\<exists>pre body post. resp = pre @ CHR ''{'' # body @ CHR ''}'' # post)"
      and "max_tries \<noteq> 0"
      and "cli llm (backend w) (model llm) (build_prompt L p (output_format p)) = (Inr resp, b')"
    using that parse_response_no_span [of resp "output_format p"]
    by (simp add: json_prompt_rejects json_prompt_overflow)
  moreover have "parse_response fmt resp = model_validate_json fmt m"
    if "re_search (normalize_amp resp) = Some m"
    using that by (simp add: parse_response_def)
  ultimately show ?thesis
    using re_search_Some_iff [of s m] parse_response_no_span [of resp fmt] by blast
qed

theorem re_search_first_span_witness:
  "re_search ''blah {a{b} c} d'' = Some ''{a{b}'' \<and>
   \<not> (\<exists>pre body post. ''I cannot say'' = pre @ CHR ''{'' # body @ CHR ''}'' # post) \<and>
   parse_response (ClassifyGenreOutput_format (example_lib example_table) [''rock'', ''pop''])
     ''I cannot say'' = Inl (ValueError ''No JSON found in response.'') \<and>
   json_prompt (example_lib example_table)
     \<lparr>cli = constant_cli ''I cannot say'', model = ''llama3''\<rparr>
     (new_prompt (example_lib example_table) [''rock'', ''pop''] [''rock'', ''pop''] ''shoegaze'') 2 (Suc 7)
     \<lparr>backend = (), requests = []\<rparr> =
   json_prompt (example_lib example_table)
     \<lparr>cli = constant_cli ''I cannot say'', model = ''llama3''\<rparr>
     (after_reject
        (new_prompt (example_lib example_table) [''rock'', ''pop''] [''rock'', ''pop''] ''shoegaze'')
        ''I cannot say'' ''No JSON found in response.'') 1 7
     (after_call (example_lib example_table)
        \<lparr>cli = constant_cli ''I cannot say'', model = ''llama3''\<rparr>
        (new_prompt (example_lib example_table) [''rock'', ''pop''] [''rock'', ''pop''] ''shoegaze'')
        \<lparr>backend = (), requests = []\<rparr> ())"
proof -
  have h: "\<not> (\<exists>pre body post. ''I cannot say'' = pre @ CHR ''{'' # body @ CHR ''}'' # post)"
    unfolding re_search_None_iff [symmetric] by simp
  have c: "cli \<lparr>cli = constant_cli ''I cannot say'', model = ''llama3''\<rparr>
             (backend \<lparr>backend = (), requests = []\<rparr>)
             (model \<lparr>cli = constant_cli ''I cannot say'', model = ''llama3''\<rparr>)
             (build_prompt (example_lib example_table)
                (new_prompt (example_lib example_table) [''rock'', ''pop''] [''rock'', ''pop''] ''shoegaze'')
                (output_format
                  (new_prompt (example_lib example_table) [''rock'', ''pop''] [''rock'', ''pop''] ''shoegaze'')))
           = (Inr ''I cannot say'', ())"
    by (simp add: constant_cli_def)
  have r: "re_search ''blah {a{b} c} d'' = Some ''{a{b}''"
    by simp
  from h c r
    re_search_first_span [of "''blah {a{b} c} d''" "''{a{b}''" "''I cannot say''"
      "ClassifyGenreOutput_format (example_lib example_table) [''rock'', ''pop'']" 2
      "\<lparr>cli = constant_cli ''I cannot say'', model = ''llama3''\<rparr>"
      "\<lparr>backend = (), requests = []\<rparr>" "example_lib example_table"
      "new_prompt (example_lib example_table) [''rock'', ''pop''] [''rock'', ''pop''] ''shoegaze''" "()" 7]
  show ?thesis by simp
qed

section \<open>The retry budget\<close>

lemma cannot_say_rejected:
  "parse_response fmt ''I cannot say'' = Inl (ValueError ''No JSON found in response.'')"
proof -
  have "re_search ''I cannot say'' = None" by simp
  then have "\<not> (\<exists>pre body post. ''I cannot say'' = pre @ CHR ''{'' # body @ CHR ''}'' # post)"
    by (rule re_search_None_iff [THEN iffD1])
  then show ?thesis by (rule parse_response_no_span)
qed





section \<open>Validation of the fundamental genre\<close>

lemma ascii_lower_ROCK: "ascii_lower ''ROCK'' = ''rock''"
  by (simp add: ascii_lower_def ascii_lower_char_def char_of_def bit_0)

lemma ascii_lower_Rock: "ascii_lower ''Rock'' = ''rock''"
  by (simp add: ascii_lower_def ascii_lower_char_def char_of_def bit_0)

lemma ascii_lower_fixed:
  "ascii_lower ''rock'' = ''rock''" "ascii_lower ''pop'' = ''pop''" "ascii_lower ''jazz'' = ''jazz''"
  by (simp_all add: ascii_lower_def ascii_lower_char_def)

lemma validate_eq:
  assumes "base_model_validate_json L j = Inr s"
  shows "ClassifyGenreOutput_model_validate_json L genres j =
           (if str_lower L (fundamental_genre s) \<in> set genres
            then Inr (s\<lparr>fundamental_genre := str_lower L (fundamental_genre s)\<rparr>)
            else Inl (ValueError (invalid_genre_text L genres (str_lower L (fundamental_genre s)))))"
  using assms by (simp add: ClassifyGenreOutput_model_validate_json_def Let_def)

text \<open>
  Claim C4, as amended. Validation folds the extracted value to lower case with
  \<^verbatim>\<open>str.lower\<close> and then tests plain membership in the permitted list: it succeeds
  exactly when the folded value is an element of the list, and the result carries the
  folded value. When every permitted label is itself left unchanged by \<^verbatim>\<open>str.lower\<close>,
  this is: exactly when the value differs from some permitted label at most in the case of
  its letters. The value \<open>ROCK\<close>, which \<^verbatim>\<open>str.lower\<close> folds to \<open>rock\<close>, validates and
  yields \<open>rock\<close> whenever \<open>rock\<close> is permitted.
\<close>

theorem validate_lowercased_membership:
  "base_model_validate_json L j = Inr s \<longrightarrow>
     ClassifyGenreOutput_model_validate_json L genres j =
       (if str_lower L (fundamental_genre s) \<in> set genres
        then Inr (s\<lparr>fundamental_genre := str_lower L (fundamental_genre s)\<rparr>)
        else Inl (ValueError (invalid_genre_text L genres (str_lower L (fundamental_genre s))))) \<and>
     ((\<forall>g \<in> set genres. str_lower L g = g) \<longrightarrow>
        ((\<exists>out. ClassifyGenreOutput_model_validate_json L genres j = Inr out) \<longleftrightarrow>
          (\<exists>g \<in> set genres. eq_ignore_case L (fundamental_genre s) g))) \<and>
     (fundamental_genre s = ''ROCK'' \<longrightarrow> str_lower L ''ROCK'' = ''rock'' \<longrightarrow>
      ''rock'' \<in> set genres \<longrightarrow>
        ClassifyGenreOutput_model_validate_json L genres j =
          Inr (s\<lparr>fundamental_genre := ''rock''\<rparr>))"
proof
  assume base: "base_model_validate_json L j = Inr s"
  note eq = validate_eq [OF base, of genres]
  have "(\<exists>out. ClassifyGenreOutput_model_validate_json L genres j = Inr out) \<longleftrightarrow>
              (\<exists>g \<in> set genres. eq_ignore_case L (fundamental_genre s) g)"
    if low: "\<forall>g \<in> set genres. str_lower L g = g"
  proof -
    have "str_lower L (fundamental_genre s) \<in> set genres \<longleftrightarrow>
          (\<exists>g \<in> set genres. eq_ignore_case L (fundamental_genre s) g)"
      unfolding eq_ignore_case_def using low by force
    moreover have "(\<exists>out. ClassifyGenreOutput_model_validate_json L genres j = Inr out) \<longleftrightarrow>
          str_lower L (fundamental_genre s) \<in> set genres"
      unfolding eq by simp
    ultimately show ?thesis by (rule trans [rotated])
  qed
  moreover have "ClassifyGenreOutput_model_validate_json L genres j =
              Inr (s\<lparr>fundamental_genre := ''rock''\<rparr>)"
    if "fundamental_genre s = ''ROCK''" "str_lower L ''ROCK'' = ''rock''" "''rock'' \<in> set genres"
    using that eq by simp
  ultimately show "ClassifyGenreOutput_model_validate_json L genres j =
       (if str_lower L (fundamental_genre s) \<in> set genres
        then Inr (s\<lparr>fundamental_genre := str_lower L (fundamental_genre s)\<rparr>)
        else Inl (ValueError (invalid_genre_text L genres (str_lower L (fundamental_genre s))))) \<and>
     ((\<forall>g \<in> set genres. str_lower L g = g) \<longrightarrow>
        ((\<exists>out. ClassifyGenreOutput_model_validate_json L genres j = Inr out) \<longleftrightarrow>
          (\<exists>g \<in> set genres. eq_ignore_case L (fundamental_genre s) g))) \<and>
     (fundamental_genre s = ''ROCK'' \<longrightarrow> str_lower L ''ROCK'' = ''rock'' \<longrightarrow>
      ''rock'' \<in> set genres \<longrightarrow>
        ClassifyGenreOutput_model_validate_json L genres j =
          Inr (s\<lparr>fundamental_genre := ''rock''\<rparr>))"
    using eq by blast
qed

theorem validate_lowercased_membership_witness:
  "base_model_validate_json (example_lib example_table) (example_doc ''x'' ''ROCK'')
     = Inr \<lparr>reason = ''x'', fundamental_genre = ''ROCK''\<rparr> \<and>
   str_lower (example_lib example_table) ''rock'' = ''rock'' \<and>
   str_lower (example_lib example_table) ''pop'' = ''pop'' \<and>
   str_lower (example_lib example_table) ''ROCK'' = ''rock'' \<and>
   ''rock'' \<in> set [''rock'', ''pop''] \<and>
   eq_ignore_case (example_lib example_table) ''ROCK'' ''rock'' \<and>
   ClassifyGenreOutput_model_validate_json (example_lib example_table) [''rock'', ''pop'']
     (example_doc ''x'' ''ROCK'') = Inr \<lparr>reason = ''x'', fundamental_genre = ''rock''\<rparr>"
proof -
  let ?L = "example_lib example_table"
  have b: "base_model_validate_json ?L (example_doc ''x'' ''ROCK'')
     = Inr \<lparr>reason = ''x'', fundamental_genre = ''ROCK''\<rparr>"
    by (simp add: example_lib_def table_validate_def example_table_def example_doc_def)
  have l: "str_lower ?L ''rock'' = ''rock''" "str_lower ?L ''pop'' = ''pop''"
    "str_lower ?L ''ROCK'' = ''rock''"
    by (simp_all add: example_lib_def ascii_lower_ROCK ascii_lower_fixed)
  then have l': "\<forall>g \<in> set [''rock'', ''pop'']. str_lower ?L g = g"
    by simp
  have e: "eq_ignore_case ?L ''ROCK'' ''rock''"
    using l by (simp add: eq_ignore_case_def)
  from b l l' e
    validate_lowercased_membership [of ?L "example_doc ''x'' ''ROCK''"
      "\<lparr>reason = ''x'', fundamental_genre = ''ROCK''\<rparr>" "[''rock'', ''pop'']"]
  show ?thesis by simp
qed

text \<open>
  The claim as it is written fails when a permitted label has a capital letter: the value
  \<open>Rock\<close> is equal to the permitted label \<open>Rock\<close>, and is rejected.
\<close>

theorem validate_case_insensitive_counterexample:
  "base_model_validate_json (example_lib example_table) (example_doc ''x'' ''Rock'')
     = Inr \<lparr>reason = ''x'', fundamental_genre = ''Rock''\<rparr> \<and>
   ''Rock'' \<in> set [''Rock''] \<and>
   eq_ignore_case (example_lib example_table) ''Rock'' ''Rock'' \<and>
   ClassifyGenreOutput_model_validate_json (example_lib example_table) [''Rock'']
     (example_doc ''x'' ''Rock'')
     = Inl (ValueError ''Invalid fundamental genre: rock. Choose from ['Rock']'')"
  by (simp add: ClassifyGenreOutput_model_validate_json_def example_lib_def table_validate_def
      example_table_def example_doc_def eq_ignore_case_def ascii_lower_Rock
      invalid_genre_text_def str_of_list_def)

section \<open>Rendering the payload\<close>

text \<open>Every payload sent is the system message followed by the conversation stored so far.\<close>

lemma json_prompt_payloads:
  assumes "json_prompt L llm p max_tries depth w = (r, p', w')"
  shows "\<exists>new. requests w' = requests w @ new \<and>
           (\<forall>req \<in> set new. \<exists>c.
              req = (model llm,
                     \<lparr>role = ''system'', content = system_msg_text L (output_format p)\<rparr> # msgs p @ c) \<and>
              prefix (msgs p @ c) (msgs p'))"
  using assms
proof (induction depth arbitrary: p w max_tries)
  case 0
  let ?sys = "\<lparr>role = ''system'', content = system_msg_text L (output_format p)\<rparr>"
  have single: ?case
    if "requests w' = requests w @ [(model llm, build_prompt L p (output_format p))]"
      and "prefix (msgs p) (msgs p')"
  proof (intro exI [of _ "[(model llm, build_prompt L p (output_format p))]"] conjI ballI)
    show "requests w' = requests w @ [(model llm, build_prompt L p (output_format p))]"
      by (rule that)
    fix req
    assume "req \<in> set [(model llm, build_prompt L p (output_format p))]"
    with that(2) have "req = (model llm, ?sys # msgs p @ []) \<and> prefix (msgs p @ []) (msgs p')"
      by (simp add: build_prompt_def)
    then show "\<exists>c. req = (model llm, ?sys # msgs p @ c) \<and> prefix (msgs p @ c) (msgs p')"
      by blast
  qed
  show ?case
  proof (cases "max_tries = 0")
    case True
    with "0.prems" have "requests w' = requests w @ []" by (simp add: json_prompt_zero)
    then show ?thesis by (intro exI [of _ "[]"]) simp
  next
    case False
    then show ?thesis
    proof (cases rule: json_prompt_step_cases [where llm = llm and w = w and L = L and p = p and depth = 0])
      case (raises e b')
      with "0.prems" show ?thesis by (intro single) auto
    next
      case (accepts resp b' out)
      with "0.prems" show ?thesis by (intro single) auto
    next
      case (rejects resp b' e d)
      then show ?thesis by simp
    next
      case (overflow resp b' e)
      with "0.prems" show ?thesis by (intro single) auto
    next
      case (other resp b' e)
      with "0.prems" show ?thesis by (intro single) auto
    qed
  qed
next
  case (Suc depth)
  let ?sys = "\<lparr>role = ''system'', content = system_msg_text L (output_format p)\<rparr>"
  have single: ?case
    if "requests w' = requests w @ [(model llm, build_prompt L p (output_format p))]"
      and "prefix (msgs p) (msgs p')"
  proof (intro exI [of _ "[(model llm, build_prompt L p (output_format p))]"] conjI ballI)
    show "requests w' = requests w @ [(model llm, build_prompt L p (output_format p))]"
      by (rule that)
    fix req
    assume "req \<in> set [(model llm, build_prompt L p (output_format p))]"
    with that(2) have "req = (model llm, ?sys # msgs p @ []) \<and> prefix (msgs p @ []) (msgs p')"
      by (simp add: build_prompt_def)
    then show "\<exists>c. req = (model llm, ?sys # msgs p @ c) \<and> prefix (msgs p @ c) (msgs p')"
      by blast
  qed
  show ?case
  proof (cases "max_tries = 0")
    case True
    with Suc.prems have "requests w' = requests w @ []" by (simp add: json_prompt_zero)
    then show ?thesis by (intro exI [of _ "[]"]) simp
  next
    case False
    then show ?thesis
    proof (cases rule: json_prompt_step_cases [where llm = llm and w = w and L = L and p = p and depth = "Suc depth"])
      case (raises e b')
      with Suc.prems show ?thesis by (intro single) auto
    next
      case (accepts resp b' out)
      with Suc.prems show ?thesis by (intro single) auto
    next
      case (overflow resp b' e)
      then show ?thesis by simp
    next
      case (other resp b' e)
      with Suc.prems show ?thesis by (intro single) auto
    next
      case (rejects resp b' e d)
      let ?p1 = "after_reject p resp e" and ?w1 = "after_call L llm p w b'"
      let ?pair = "[\<lparr>role = ''assistant'', content = resp\<rparr>,
                    \<lparr>role = ''user'', content = correction_text e\<rparr>]"
      from rejects Suc.prems have run: "json_prompt L llm ?p1 (max_tries - 1) depth ?w1 = (r, p', w')"
        by simp
      from json_prompt_appends [OF run] obtain added where
        added: "msgs p' = msgs ?p1 @ added"
        by blast
      from Suc.IH [OF run] obtain new1 where
        n1: "requests w' = requests ?w1 @ new1"
        and each: "\<forall>req \<in> set new1. \<exists>c.
                req = (model llm,
                       \<lparr>role = ''system'', content = system_msg_text L (output_format ?p1)\<rparr> #
                       msgs ?p1 @ c) \<and>
                prefix (msgs ?p1 @ c) (msgs p')"
        by blast
      let ?new = "(model llm, build_prompt L p (output_format p)) # new1"
      have "requests w' = requests w @ ?new"
        using n1 by simp
      moreover have "\<exists>c. req = (model llm, ?sys # msgs p @ c) \<and> prefix (msgs p @ c) (msgs p')"
        if "req \<in> set ?new" for req
      proof (cases "req = (model llm, build_prompt L p (output_format p))")
        case True
        with added have "req = (model llm, ?sys # msgs p @ []) \<and> prefix (msgs p @ []) (msgs p')"
          by (simp add: build_prompt_def)
        then show ?thesis by blast
      next
        case False
        with that have "req \<in> set new1" by simp
        with each obtain c where
          "req = (model llm, ?sys # msgs p @ (?pair @ c))" "prefix (msgs p @ (?pair @ c)) (msgs p')"
          by auto
        then show ?thesis by blast
      qed
      ultimately show ?thesis by blast
    qed
  qed
qed

text \<open>
  Claim C9. The payload is the system message, made from the fields of the output format,
  followed by the stored conversation; it is a new list, the prompt is not an output of
  \<open>build_prompt\<close>, and the \<open>system_prompt\<close> field has no part in it. A run of
  \<open>json_prompt\<close> never stores a message of role \<open>system\<close>: those that the conversation
  holds afterwards are those it held before. Each payload that the run sends is the system
  message followed by the conversation as stored at that moment, which is the initial
  conversation with some messages appended and a prefix of the final one.
\<close>

theorem build_prompt_frame:
  "build_prompt L p fmt = \<lparr>role = ''system'', content = system_msg_text L fmt\<rparr> # msgs p \<and>
   tl (build_prompt L p fmt) = msgs p \<and>
   build_prompt L (p\<lparr>system_prompt := sp\<rparr>) fmt = build_prompt L p fmt \<and>
   (json_prompt L llm p max_tries depth w = (r, p', w') \<longrightarrow>
      filter (\<lambda>m. role m = ''system'') (msgs p') = filter (\<lambda>m. role m = ''system'') (msgs p) \<and>
      (\<exists>new. requests w' = requests w @ new \<and>
         (\<forall>req \<in> set new. \<exists>c.
            req = (model llm,
                   \<lparr>role = ''system'', content = system_msg_text L (output_format p)\<rparr> # msgs p @ c) \<and>
            prefix (msgs p @ c) (msgs p'))))"
proof -
  have "filter (\<lambda>m. role m = ''system'') (msgs p') = filter (\<lambda>m. role m = ''system'') (msgs p)"
    if run: "json_prompt L llm p max_tries depth w = (r, p', w')"
  proof -
    from json_prompt_appends [OF run] obtain added where
      a: "msgs p' = msgs p @ added"
      and roles: "\<forall>m \<in> set added. role m = ''assistant'' \<or> role m = ''user''"
      by blast
    from roles have "filter (\<lambda>m. role m = ''system'') added = []"
      by (auto simp: filter_empty_conv)
    with a show ?thesis by simp
  qed
  moreover have "build_prompt L p fmt = \<lparr>role = ''system'', content = system_msg_text L fmt\<rparr> # msgs p"
    and "tl (build_prompt L p fmt) = msgs p"
    and "build_prompt L (p\<lparr>system_prompt := sp\<rparr>) fmt = build_prompt L p fmt"
    by (simp_all add: build_prompt_def)
  ultimately show ?thesis
    using json_prompt_payloads [of L llm p max_tries depth w r p' w'] by blast
qed

theorem build_prompt_frame_witness:
  "\<exists>r p' w'.
     json_prompt (example_lib example_table)
       \<lparr>cli = scripted_cli, model = ''llama3''\<rparr>
       (new_prompt (example_lib example_table) [''rock'', ''pop''] [''rock'', ''pop''] ''bebop'') 20 50
       \<lparr>backend = [''I cannot say'', example_doc ''x'' ''ROCK''], requests = []\<rparr>
       = (r, p', w') \<and>
     filter (\<lambda>m. role m = ''system'') (msgs p') = []"
proof -
  let ?L = "example_lib example_table"
  let ?llm = "\<lparr>cli = scripted_cli, model = ''llama3''\<rparr>"
  let ?p = "new_prompt ?L [''rock'', ''pop''] [''rock'', ''pop''] ''bebop''"
  let ?w = "\<lparr>backend = [''I cannot say'', example_doc ''x'' ''ROCK''], requests = []\<rparr>"
  obtain r p' w' where run: "json_prompt ?L ?llm ?p 20 50 ?w = (r, p', w')"
    by (cases "json_prompt ?L ?llm ?p 20 50 ?w")
  have "filter (\<lambda>m. role m = ''system'') (msgs ?p) = []"
    by (simp add: new_prompt_def)
  with build_prompt_frame [of ?L ?p "output_format ?p" None ?llm 20 50 ?w r p' w'] run
  have "filter (\<lambda>m. role m = ''system'') (msgs p') = []"
    by simp
  with run show ?thesis by (intro exI conjI)
qed

section \<open>Corrections\<close>

lemma parse_response_ClassifyGenreOutput:
  "(\<exists>e. parse_response (ClassifyGenreOutput_format L genres) resp = Inl (ValueError e)) \<or>
   (\<exists>out. parse_response (ClassifyGenreOutput_format L genres) resp = Inr out \<and>
      fundamental_genre out \<in> set genres)"
  by (auto simp: parse_response_def ClassifyGenreOutput_format_def
      ClassifyGenreOutput_model_validate_json_def Let_def split: option.splits sum.splits)




section \<open>The length of the conversation\<close>



section \<open>Failure of the backend\<close>

text \<open>
  Claim C3, as amended. When the chat call raises, \<open>json_prompt\<close> ends at once with that
  exception: one request was made, nothing was appended to the conversation, and there is
  no further attempt. The exception is an outcome of another kind than the \<open>None\<close> of a
  used-up budget. \<open>classify_genres\<close> does not catch it: the loop ends with the exception,
  no mapping is returned, and the remaining items are not processed.
\<close>

theorem backend_failure_propagates:
  "(max_tries \<noteq> 0 \<longrightarrow>
    cli llm (backend w) (model llm) (build_prompt L p (output_format p)) = (Inl e, b') \<longrightarrow>
      json_prompt L llm p max_tries depth w =
        (Inl e, p,
         \<lparr>backend = b',
          requests = requests w @ [(model llm, build_prompt L p (output_format p))]\<rparr>) \<and>
      Inl e \<noteq> (Inr None :: py_exception + 'r option)) \<and>
   (json_prompt L llm (new_prompt L cfg_genres fundamental_genres genre) 20 depth w = (Inl x, q, w') \<longrightarrow>
      classify_loop L llm cfg_genres fundamental_genres depth classifed (genre # rest) w = (Inl x, w'))"
  for p :: "'r JsonPrompt"
  by (simp add: json_prompt_raises after_call_def)

theorem backend_failure_propagates_witness:
  "json_prompt (example_lib example_table) \<lparr>cli = scripted_cli, model = ''llama3''\<rparr>
     (new_prompt (example_lib example_table) [''rock'', ''pop''] [''rock'', ''pop''] ''shoegaze'') 20 50
     \<lparr>backend = [], requests = []\<rparr>
   = (Inl (OtherError ''connection refused''),
      new_prompt (example_lib example_table) [''rock'', ''pop''] [''rock'', ''pop''] ''shoegaze'',
      \<lparr>backend = [],
       requests = [(''llama3'',
         build_prompt (example_lib example_table)
           (new_prompt (example_lib example_table) [''rock'', ''pop''] [''rock'', ''pop''] ''shoegaze'')
           (ClassifyGenreOutput_format (example_lib example_table) [''rock'', ''pop'']))]\<rparr>) \<and>
   classify_loop (example_lib example_table) \<lparr>cli = scripted_cli, model = ''llama3''\<rparr>
     [''rock'', ''pop''] [''rock'', ''pop''] 50 [] [''shoegaze'', ''bebop'']
     \<lparr>backend = [], requests = []\<rparr>
   = (Inl (OtherError ''connection refused''),
      \<lparr>backend = [],
       requests = [(''llama3'',
         build_prompt (example_lib example_table)
           (new_prompt (example_lib example_table) [''rock'', ''pop''] [''rock'', ''pop''] ''shoegaze'')
           (ClassifyGenreOutput_format (example_lib example_table) [''rock'', ''pop'']))]\<rparr>)"
proof -
  let ?L = "example_lib example_table"
  let ?llm = "\<lparr>cli = scripted_cli, model = ''llama3''\<rparr>"
  let ?p = "new_prompt ?L [''rock'', ''pop''] [''rock'', ''pop''] ''shoegaze''"
  let ?w = "\<lparr>backend = [] :: string list, requests = []\<rparr>"
  have nz: "(20 :: int) \<noteq> 0" by simp
  have c: "cli ?llm (backend ?w) (model ?llm) (build_prompt ?L ?p (output_format ?p))
             = (Inl (OtherError ''connection refused''), [])"
    by (simp add: scripted_cli_def)
  have fmt: "output_format ?p = ClassifyGenreOutput_format ?L [''rock'', ''pop'']"
    by (simp add: new_prompt_def)
  from backend_failure_propagates [of 20 ?llm ?w ?L ?p "OtherError ''connection refused''" "[]" 50
      "[''rock'', ''pop'']" "[''rock'', ''pop'']" "''shoegaze''" "OtherError ''connection refused''"
      ?p
      "\<lparr>backend = [], requests = [(''llama3'', build_prompt ?L ?p (output_format ?p))]\<rparr>"
      "[]" "[''bebop'']"]
    nz c fmt
  show ?thesis by simp
qed

text \<open>
  The claim as it is written fails: with a backend that cannot be reached, the batch over
  two items ends with the exception after a single request; the first item is not recorded
  as failed and the second is never tried.
\<close>

theorem classify_genres_backend_failure_counterexample:
  "classify_genres (example_lib example_table) [''rock'', ''pop''] 50 [''shoegaze'', ''bebop'']
     [''rock'', ''pop''] \<lparr>cli = scripted_cli, model = ''llama3''\<rparr>
     \<lparr>backend = [], requests = []\<rparr>
   = (Inl (OtherError ''connection refused''),
      \<lparr>backend = [],
       requests = [(''llama3'',
         build_prompt (example_lib example_table)
           (new_prompt (example_lib example_table) [''rock'', ''pop''] [''rock'', ''pop''] ''shoegaze'')
           (ClassifyGenreOutput_format (example_lib example_table) [''rock'', ''pop'']))]\<rparr>)"
proof -
  let ?L = "example_lib example_table"
  let ?llm = "\<lparr>cli = scripted_cli, model = ''llama3''\<rparr>"
  let ?p = "new_prompt ?L [''rock'', ''pop''] [''rock'', ''pop''] ''shoegaze''"
  let ?w = "\<lparr>backend = [] :: string list, requests = []\<rparr>"
  have "json_prompt ?L ?llm ?p 20 50 ?w =
          (Inl (OtherError ''connection refused''), ?p, after_call ?L ?llm ?p ?w [])"
    by (rule json_prompt_raises) (simp_all add: scripted_cli_def)
  moreover have "output_format ?p = ClassifyGenreOutput_format ?L [''rock'', ''pop'']"
    by (simp add: new_prompt_def)
  ultimately show ?thesis
    by (simp add: classify_genres_def after_call_def)
qed

section \<open>The batch\<close>

lemma set_update_subset: "set (AList.update k v al) \<subseteq> insert (k, v) (set al)"
  by (induction al) auto

lemma update_new_key: "k \<notin> fst ` set al \<Longrightarrow> AList.update k v al = al @ [(k, v)]"
  by (induction al) auto

text \<open>
  With the \<open>ClassifyGenreOutput\<close> format, a backend that answers every request and room
  on the stack for the budget, \<open>json_prompt\<close> raises nothing.
\<close>

lemma json_prompt_no_exception:
  assumes "\<forall>b ms. \<exists>t b'. cli llm b (model llm) ms = (Inr t, b')"
    and "output_format p = ClassifyGenreOutput_format L' genres"
    and "json_prompt L llm p max_tries depth w = (r, p', w')"
    and "0 \<le> max_tries" and "max_tries \<le> int depth"
  shows "\<exists>v. r = Inr v"
  using assms(2-)
proof (induction depth arbitrary: p w max_tries)
  case 0
  then have "max_tries = 0" by simp
  with "0.prems" show ?case by (auto simp add: json_prompt_zero)
next
  case (Suc depth)
  show ?case
  proof (cases "max_tries = 0")
    case True
    with Suc.prems show ?thesis by (auto simp add: json_prompt_zero)
  next
    case False
    then show ?thesis
    proof (cases rule: json_prompt_step_cases [where llm = llm and w = w and L = L and p = p and depth = "Suc depth"])
      case (raises e b')
      with assms(1) show ?thesis by (metis Inl_Inr_False prod.inject)
    next
      case (accepts resp b' out)
      with Suc.prems show ?thesis by auto
    next
      case (overflow resp b' e)
      then show ?thesis by simp
    next
      case (other resp b' e)
      with Suc.prems(1) parse_response_ClassifyGenreOutput [of L' genres resp]
      show ?thesis by auto
    next
      case (rejects resp b' e d)
      let ?p1 = "after_reject p resp e" and ?w1 = "after_call L llm p w b'"
      from rejects Suc.prems have run: "json_prompt L llm ?p1 (max_tries - 1) depth ?w1 = (r, p', w')"
        by simp
      from Suc.prems(1) have fmt: "output_format ?p1 = ClassifyGenreOutput_format L' genres"
        by simp
      from False Suc.prems have "0 \<le> max_tries - 1" "max_tries - 1 \<le> int depth"
        by simp_all
      from Suc.IH [OF fmt run this] show ?thesis .
    qed
  qed
qed

lemma classify_loop_step:
  obtains
    (raises) e q w1 where
      "json_prompt L llm (new_prompt L cfg_genres fundamental_genres genre) 20 depth w = (Inl e, q, w1)"
      "classify_loop L llm cfg_genres fundamental_genres depth classifed (genre # rest) w = (Inl e, w1)"
  | (exhausted) q w1 where
      "json_prompt L llm (new_prompt L cfg_genres fundamental_genres genre) 20 depth w = (Inr None, q, w1)"
      "classify_loop L llm cfg_genres fundamental_genres depth classifed (genre # rest) w =
         classify_loop L llm cfg_genres fundamental_genres depth
           (AList.update genre None classifed) rest w1"
  | (success) out q w1 where
      "json_prompt L llm (new_prompt L cfg_genres fundamental_genres genre) 20 depth w
         = (Inr (Some out), q, w1)"
      "classify_loop L llm cfg_genres fundamental_genres depth classifed (genre # rest) w =
         classify_loop L llm cfg_genres fundamental_genres depth
           (AList.update genre (Some (fundamental_genre out)) classifed) rest w1"
proof -
  obtain r q w1 where
    run: "json_prompt L llm (new_prompt L cfg_genres fundamental_genres genre) 20 depth w = (r, q, w1)"
    by (cases "json_prompt L llm (new_prompt L cfg_genres fundamental_genres genre) 20 depth w")
  show thesis
  proof (cases r)
    case (Inl e)
    with run show thesis by (intro raises [of e q w1]) simp_all
  next
    case (Inr v)
    show thesis
    proof (cases v)
      case None
      with Inr run show thesis by (intro exhausted [of q w1]) simp_all
    next
      case (Some out)
      with Inr run show thesis by (intro success [of out q w1]) simp_all
    qed
  qed
qed

lemma classify_loop_entries:
  assumes "classify_loop L llm cfg_genres fundamental_genres depth classifed all_genres w = (Inr d, w')"
  shows "fst ` set d = fst ` set classifed \<union> set all_genres \<and>
         (distinct (map fst classifed) \<longrightarrow> distinct (map fst d)) \<and>
         (distinct (map fst classifed @ all_genres) \<longrightarrow> map fst d = map fst classifed @ all_genres) \<and>
         (\<forall>kv \<in> set d. kv \<in> set classifed \<or> snd kv = None \<or>
            (\<exists>label \<in> set cfg_genres. snd kv = Some label))"
  using assms
proof (induction all_genres arbitrary: classifed w)
  case Nil
  then show ?case by simp
next
  case (Cons genre rest)
  let ?p = "new_prompt L cfg_genres fundamental_genres genre"
  have step: ?case
    if loop: "classify_loop L llm cfg_genres fundamental_genres depth (AList.update genre v classifed) rest w1
                = (Inr d, w')"
      and v: "v = None \<or> (\<exists>label \<in> set cfg_genres. v = Some label)" for v w1
  proof -
    note ih = Cons.IH [OF loop]
    from ih have keys: "fst ` set d = fst ` set classifed \<union> set (genre # rest)"
      by (simp add: dom_update)
    from ih have dist: "distinct (map fst classifed) \<longrightarrow> distinct (map fst d)"
      by (simp add: distinct_update)
    have order: "map fst d = map fst classifed @ genre # rest"
      if "distinct (map fst classifed @ genre # rest)"
    proof -
      from that have "genre \<notin> fst ` set classifed" by auto
      then have u: "AList.update genre v classifed = classifed @ [(genre, v)]"
        by (rule update_new_key)
      with that have "distinct (map fst (AList.update genre v classifed) @ rest)" by auto
      with ih u show ?thesis by simp
    qed
    have vals: "kv \<in> set classifed \<or> snd kv = None \<or>
            (\<exists>label \<in> set cfg_genres. snd kv = Some label)" if "kv \<in> set d" for kv
    proof -
      from ih that have "kv \<in> set (AList.update genre v classifed) \<or> snd kv = None \<or>
            (\<exists>label \<in> set cfg_genres. snd kv = Some label)"
        by blast
      moreover have "kv = (genre, v) \<or> kv \<in> set classifed"
        if "kv \<in> set (AList.update genre v classifed)"
        using that set_update_subset [of genre v classifed] by auto
      ultimately show ?thesis using v by auto
    qed
    from keys dist order vals show ?thesis by blast
  qed
  show ?case
  proof (cases rule: classify_loop_step [where L = L and llm = llm and cfg_genres = cfg_genres
        and fundamental_genres = fundamental_genres and genre = genre and depth = depth and w = w
        and classifed = classifed and rest = rest])
    case (raises e q w1)
    with Cons.prems show ?thesis by simp
  next
    case (exhausted q w1)
    with Cons.prems show ?thesis by (intro step [of None w1]) simp_all
  next
    case (success out q w1)
    from json_prompt_result_parsed [OF success(1)] obtain resp where
      "parse_response (ClassifyGenreOutput_format L cfg_genres) resp = Inr out"
      by (auto simp: new_prompt_def)
    with parse_response_ClassifyGenreOutput [of L cfg_genres resp]
    have "fundamental_genre out \<in> set cfg_genres" by auto
    with success Cons.prems show ?thesis
      by (intro step [of "Some (fundamental_genre out)" w1]) simp_all
  qed
qed

lemma classify_loop_no_exception:
  assumes "\<forall>b ms. \<exists>t b'. cli llm b (model llm) ms = (Inr t, b')" and "20 \<le> depth"
  shows "\<exists>d w'. classify_loop L llm cfg_genres fundamental_genres depth classifed all_genres w
                   = (Inr d, w')"
proof (induction all_genres arbitrary: classifed w)
  case Nil
  show ?case by simp
next
  case (Cons genre rest)
  let ?p = "new_prompt L cfg_genres fundamental_genres genre"
  have fmt: "output_format ?p = ClassifyGenreOutput_format L cfg_genres"
    by (simp add: new_prompt_def)
  from assms(2) have room: "(0 :: int) \<le> 20" "20 \<le> int depth" by simp_all
  show ?case
  proof (cases rule: classify_loop_step [where L = L and llm = llm and cfg_genres = cfg_genres
        and fundamental_genres = fundamental_genres and genre = genre and depth = depth and w = w
        and classifed = classifed and rest = rest])
    case (raises e q w1)
    from json_prompt_no_exception [OF assms(1) fmt raises(1) room] show ?thesis by simp
  next
    case (exhausted q w1)
    with Cons.IH [of "AList.update genre None classifed" w1] show ?thesis by simp
  next
    case (success out q w1)
    with Cons.IH [of "AList.update genre (Some (fundamental_genre out)) classifed" w1]
    show ?thesis by simp
  qed
qed

text \<open>The loop over a list continued by further items.\<close>

lemma classify_loop_append:
  assumes "classify_loop L llm cfg_genres fundamental_genres depth classifed gs w = (Inr d, w1)"
  shows "classify_loop L llm cfg_genres fundamental_genres depth classifed (gs @ later) w =
           classify_loop L llm cfg_genres fundamental_genres depth d later w1"
  using assms
proof (induction gs arbitrary: classifed w)
  case Nil
  then show ?case by simp
next
  case (Cons genre rest)
  show ?case
  proof (cases rule: classify_loop_step [where L = L and llm = llm and cfg_genres = cfg_genres
        and fundamental_genres = fundamental_genres and genre = genre and depth = depth and w = w
        and classifed = classifed and rest = rest])
    case (raises e q w2)
    with Cons.prems show ?thesis by simp
  next
    case (exhausted q w2)
    with Cons.prems
    have "classify_loop L llm cfg_genres fundamental_genres depth
            (AList.update genre None classifed) rest w2 = (Inr d, w1)"
      by simp
    from Cons.IH [OF this] exhausted(1) show ?thesis by simp
  next
    case (success out q w2)
    with Cons.prems
    have "classify_loop L llm cfg_genres fundamental_genres depth
            (AList.update genre (Some (fundamental_genre out)) classifed) rest w2 = (Inr d, w1)"
      by simp
    from Cons.IH [OF this] success(1) show ?thesis by simp
  qed
qed

text \<open>The scripted backend: as many rejected answers as the budget, then the rest.\<close>

lemma scripted_rejections:
  assumes "k \<le> depth"
  shows "\<exists>p' rq'. json_prompt L \<lparr>cli = scripted_cli, model = m\<rparr> p (int k) depth
           \<lparr>backend = replicate k ''I cannot say'' @ script, requests = rq\<rparr>
         = (Inr None, p', \<lparr>backend = script, requests = rq'\<rparr>)"
  using assms
proof (induction k arbitrary: p rq depth)
  case 0
  show ?case by (simp add: json_prompt_zero)
next
  case (Suc k)
  let ?llm = "\<lparr>cli = scripted_cli, model = m\<rparr>"
  let ?w = "\<lparr>backend = replicate (Suc k) ''I cannot say'' @ script, requests = rq\<rparr>"
  from Suc.prems obtain d where d: "depth = Suc d" "k \<le> d" by (cases depth) auto
  have nz: "int (Suc k) \<noteq> 0" by simp
  have c: "cli ?llm (backend ?w) (model ?llm) (build_prompt L p (output_format p))
             = (Inr ''I cannot say'', replicate k ''I cannot say'' @ script)"
    by (simp add: scripted_cli_def)
  from json_prompt_rejects [OF nz c cannot_say_rejected, of d]
  have "json_prompt L ?llm p (int (Suc k)) (Suc d) ?w =
          json_prompt L ?llm (after_reject p ''I cannot say'' ''No JSON found in response.'') (int k) d
            \<lparr>backend = replicate k ''I cannot say'' @ script,
             requests = rq @ [(m, build_prompt L p (output_format p))]\<rparr>"
    by (simp add: after_call_def)
  with Suc.IH [OF d(2)] d(1) show ?case by simp
qed

text \<open>
  Claim C2. \<open>classify_genres\<close> always comes to an end. A mapping that it returns has the
  input items as its keys, each once; in the order of the input when the input has no
  repetition; and each value is \<open>None\<close> or a label that passed validation. With a
  backend that answers every request and room on the stack for the budget of 20, a mapping
  is what \<open>classify_genres\<close> returns. The mapping is built item by item from the outcomes
  of \<open>json_prompt\<close>: for no items it is empty; when the items so far have given a
  mapping and the next item's run of \<open>json_prompt\<close>, started in the world that they left,
  ends with the budget used up, the result for all of them is that mapping with
  \<open>None\<close> stored for the item; when that run succeeds, it is that mapping with the
  fundamental genre of the result stored for the item. So a used-up budget for one item
  is recorded and the loop goes on with the remaining items.
\<close>

theorem classify_genres_one_entry_per_item:
  "(\<exists>r w'. classify_genres L cfg_genres depth all_genres fundamental_genres llm w = (r, w') \<and>
      (\<forall>d. r = Inr d \<longrightarrow>
         distinct (map fst d) \<and> set (map fst d) = set all_genres \<and>
         (distinct all_genres \<longrightarrow> map fst d = all_genres) \<and>
         (\<forall>kv \<in> set d. snd kv = None \<or> (\<exists>label \<in> set cfg_genres. snd kv = Some label))) \<and>
      (20 \<le> depth \<longrightarrow> (\<forall>b ms. \<exists>t b'. cli llm b (model llm) ms = (Inr t, b')) \<longrightarrow>
         (\<exists>d. r = Inr d))) \<and>
   classify_genres L cfg_genres depth [] fundamental_genres llm w = (Inr [], w) \<and>
   (classify_genres L cfg_genres depth gs fundamental_genres llm w = (Inr d0, w0) \<longrightarrow>
    json_prompt L llm (new_prompt L cfg_genres fundamental_genres genre) 20 depth w0
      = (Inr None, q, w1) \<longrightarrow>
    classify_genres L cfg_genres depth (gs @ [genre]) fundamental_genres llm w =
      (Inr (AList.update genre None d0), w1)) \<and>
   (classify_genres L cfg_genres depth gs fundamental_genres llm w = (Inr d0, w0) \<longrightarrow>
    json_prompt L llm (new_prompt L cfg_genres fundamental_genres genre) 20 depth w0
      = (Inr (Some out), q, w1) \<longrightarrow>
    classify_genres L cfg_genres depth (gs @ [genre]) fundamental_genres llm w =
      (Inr (AList.update genre (Some (fundamental_genre out)) d0), w1))"
proof -
  obtain r w' where
    ret: "classify_genres L cfg_genres depth all_genres fundamental_genres llm w = (r, w')"
    by (cases "classify_genres L cfg_genres depth all_genres fundamental_genres llm w")
  have props: "distinct (map fst d) \<and> set (map fst d) = set all_genres \<and>
         (distinct all_genres \<longrightarrow> map fst d = all_genres) \<and>
         (\<forall>kv \<in> set d. snd kv = None \<or> (\<exists>label \<in> set cfg_genres. snd kv = Some label))"
    if "r = Inr d" for d
  proof -
    from ret that
    have "classify_loop L llm cfg_genres fundamental_genres depth [] all_genres w = (Inr d, w')"
      by (simp add: classify_genres_def)
    from classify_loop_entries [OF this] show ?thesis by simp
  qed
  have mapping: "\<exists>d. r = Inr d"
    if "20 \<le> depth" "\<forall>b ms. \<exists>t b'. cli llm b (model llm) ms = (Inr t, b')"
    using classify_loop_no_exception [OF that(2,1), of L cfg_genres fundamental_genres "[]" all_genres w]
      ret by (auto simp: classify_genres_def)
  from ret props mapping have A:
    "\<exists>r w'. classify_genres L cfg_genres depth all_genres fundamental_genres llm w = (r, w') \<and>
      (\<forall>d. r = Inr d \<longrightarrow>
         distinct (map fst d) \<and> set (map fst d) = set all_genres \<and>
         (distinct all_genres \<longrightarrow> map fst d = all_genres) \<and>
         (\<forall>kv \<in> set d. snd kv = None \<or> (\<exists>label \<in> set cfg_genres. snd kv = Some label))) \<and>
      (20 \<le> depth \<longrightarrow> (\<forall>b ms. \<exists>t b'. cli llm b (model llm) ms = (Inr t, b')) \<longrightarrow>
         (\<exists>d. r = Inr d))"
    by blast
  have B: "classify_genres L cfg_genres depth [] fundamental_genres llm w = (Inr [], w)"
    by (simp add: classify_genres_def)
  have C: "classify_genres L cfg_genres depth (gs @ [genre]) fundamental_genres llm w =
      (Inr (AList.update genre None d0), w1)"
    if "classify_genres L cfg_genres depth gs fundamental_genres llm w = (Inr d0, w0)"
      and "json_prompt L llm (new_prompt L cfg_genres fundamental_genres genre) 20 depth w0
             = (Inr None, q, w1)"
  proof -
    from that(1)
    have "classify_loop L llm cfg_genres fundamental_genres depth [] gs w = (Inr d0, w0)"
      by (simp add: classify_genres_def)
    from classify_loop_append [OF this, of "[genre]"] that(2) show ?thesis
      by (simp add: classify_genres_def)
  qed
  have D: "classify_genres L cfg_genres depth (gs @ [genre]) fundamental_genres llm w =
      (Inr (AList.update genre (Some (fundamental_genre out)) d0), w1)"
    if "classify_genres L cfg_genres depth gs fundamental_genres llm w = (Inr d0, w0)"
      and "json_prompt L llm (new_prompt L cfg_genres fundamental_genres genre) 20 depth w0
             = (Inr (Some out), q, w1)"
  proof -
    from that(1)
    have "classify_loop L llm cfg_genres fundamental_genres depth [] gs w = (Inr d0, w0)"
      by (simp add: classify_genres_def)
    from classify_loop_append [OF this, of "[genre]"] that(2) show ?thesis
      by (simp add: classify_genres_def)
  qed
  from C have C': "classify_genres L cfg_genres depth gs fundamental_genres llm w = (Inr d0, w0) \<longrightarrow>
    json_prompt L llm (new_prompt L cfg_genres fundamental_genres genre) 20 depth w0
      = (Inr None, q, w1) \<longrightarrow>
    classify_genres L cfg_genres depth (gs @ [genre]) fundamental_genres llm w =
      (Inr (AList.update genre None d0), w1)"
    by (intro impI)
  from D have D': "classify_genres L cfg_genres depth gs fundamental_genres llm w = (Inr d0, w0) \<longrightarrow>
    json_prompt L llm (new_prompt L cfg_genres fundamental_genres genre) 20 depth w0
      = (Inr (Some out), q, w1) \<longrightarrow>
    classify_genres L cfg_genres depth (gs @ [genre]) fundamental_genres llm w =
      (Inr (AList.update genre (Some (fundamental_genre out)) d0), w1)"
    by (intro impI)
  show ?thesis by (rule conjI [OF A conjI [OF B conjI [OF C' D']]])
qed

theorem classify_genres_one_entry_per_item_witness:
  "\<exists>w'. classify_genres (example_lib example_table) [''rock'', ''pop''] 50 [''shoegaze'', ''bebop'']
          [''rock'', ''pop''] \<lparr>cli = scripted_cli, model = ''llama3''\<rparr>
          \<lparr>backend = replicate 20 ''I cannot say'' @ [''Sure: '' @ example_doc ''x'' ''ROCK''],
           requests = []\<rparr>
        = (Inr [(''shoegaze'', None), (''bebop'', Some ''rock'')], w')"
proof -
  let ?L = "example_lib example_table"
  let ?G = "[''rock'', ''pop'']"
  let ?llm = "\<lparr>cli = scripted_cli, model = ''llama3''\<rparr>"
  let ?good = "''Sure: '' @ example_doc ''x'' ''ROCK''"
  let ?w = "\<lparr>backend = replicate 20 ''I cannot say'' @ [?good], requests = ([] :: (string \<times> message list) list)\<rparr>"
  let ?out = "\<lparr>reason = ''x'', fundamental_genre = ''rock''\<rparr>"
  have room: "(20 :: nat) \<le> 50" by simp
  from scripted_rejections [OF room, of ?L "''llama3''" "new_prompt ?L ?G ?G ''shoegaze''" "[?good]" "[]"]
  obtain q1 rq1 where
    first: "json_prompt ?L ?llm (new_prompt ?L ?G ?G ''shoegaze'') 20 50 ?w
              = (Inr None, q1, \<lparr>backend = [?good], requests = rq1\<rparr>)"
    by auto
  let ?w1 = "\<lparr>backend = [?good], requests = rq1\<rparr>"
  let ?p2 = "new_prompt ?L ?G ?G ''bebop''"
  have nz: "(20 :: int) \<noteq> 0" by simp
  have c: "cli ?llm (backend ?w1) (model ?llm) (build_prompt ?L ?p2 (output_format ?p2)) = (Inr ?good, [])"
    by (simp add: scripted_cli_def)
  have search: "re_search (normalize_amp ?good) = Some (example_doc ''x'' ''ROCK'')"
    by (simp add: normalize_amp.simps esc_amp_def example_doc_def)
  have base: "base_model_validate_json ?L (example_doc ''x'' ''ROCK'')
                = Inr \<lparr>reason = ''x'', fundamental_genre = ''ROCK''\<rparr>"
    by (simp add: example_lib_def table_validate_def example_table_def example_doc_def)
  have low: "str_lower ?L ''ROCK'' = ''rock''"
    by (simp add: example_lib_def ascii_lower_ROCK)
  have parsed: "parse_response (output_format ?p2) ?good = Inr ?out"
    using search base low
    by (simp add: parse_response_def new_prompt_def ClassifyGenreOutput_format_def
        ClassifyGenreOutput_model_validate_json_def)
  from json_prompt_accepts [OF nz c parsed, of 50]
  have second: "json_prompt ?L ?llm ?p2 20 50 ?w1 =
      (Inr (Some ?out), add_msg ?p2 \<lparr>role = ''assistant'', content = ?good\<rparr>,
       after_call ?L ?llm ?p2 ?w1 [])" .
  note empty = classify_genres_one_entry_per_item
      [of ?L ?G 50 "[]" ?G ?llm ?w "[]" "[]" ?w "''shoegaze''" q1 ?w1 ?out,
       THEN conjunct2, THEN conjunct1]
  note one = classify_genres_one_entry_per_item
      [of ?L ?G 50 "[]" ?G ?llm ?w "[]" "[]" ?w "''shoegaze''" q1 ?w1 ?out,
       THEN conjunct2, THEN conjunct2, THEN conjunct1, THEN mp, OF empty, THEN mp, OF first]
  then have one': "classify_genres ?L ?G 50 [''shoegaze''] ?G ?llm ?w = (Inr [(''shoegaze'', None)], ?w1)"
    by simp
  note two = classify_genres_one_entry_per_item
      [of ?L ?G 50 "[]" ?G ?llm ?w "[''shoegaze'']" "[(''shoegaze'', None)]" ?w1 "''bebop''"
          "add_msg ?p2 \<lparr>role = ''assistant'', content = ?good\<rparr>"
          "after_call ?L ?llm ?p2 ?w1 []" ?out,
       THEN conjunct2, THEN conjunct2, THEN conjunct2, THEN mp, OF one', THEN mp, OF second]
  then have "classify_genres ?L ?G 50 [''shoegaze'', ''bebop''] ?G ?llm ?w =
      (Inr [(''shoegaze'', None), (''bebop'', Some ''rock'')], after_call ?L ?llm ?p2 ?w1 [])"
    by simp
  then show ?thesis by (rule exI)
qed

section \<open>The order of the loaded history\<close>

text \<open>
  Claim C10. The list that \<open>load_history\<close> returns is sorted by \<open>ts\<close> in non-decreasing
  order, whatever the listing of the directory and the contents of the files are; it is
  the stable sort of the spans loaded from the files whose names end in \<open>.json\<close>, and so
  holds the same spans as often.
\<close>

theorem load_history_sorted:
  "load_history fs dir = Inr songs \<longrightarrow>
     sorted (map ts songs) \<and>
     (\<exists>names loaded. listdir fs dir = Inr names \<and>
        load_files fs dir (filter (suffix ''.json'') names) [] = Inr loaded \<and>
        songs = sort_key ts loaded \<and> mset songs = mset loaded)"
proof
  assume "load_history fs dir = Inr songs"
  then obtain names loaded where
    l: "listdir fs dir = Inr names"
       "load_files fs dir (filter (suffix ''.json'') names) [] = Inr loaded"
       "songs = sort_key ts loaded"
    by (auto simp: load_history_def split: sum.splits)
  from l(3) have "sorted (map ts songs)" and "mset songs = mset loaded"
    by simp_all
  with l show "sorted (map ts songs) \<and>
     (\<exists>names loaded. listdir fs dir = Inr names \<and>
        load_files fs dir (filter (suffix ''.json'') names) [] = Inr loaded \<and>
        songs = sort_key ts loaded \<and> mset songs = mset loaded)"
    by blast
qed

theorem load_history_sorted_witness:
  "load_history example_fs ''data'' = Inr [example_span 10, example_span 20, example_span 30] \<and>
   sorted (map ts [example_span 10, example_span 20, example_span 30])"
proof -
  have run: "load_history example_fs ''data'' = Inr [example_span 10, example_span 20, example_span 30]"
    by (simp add: load_history_def example_fs_def suffix_to_prefix example_span_def)
  from load_history_sorted [of example_fs "''data''" "[example_span 10, example_span 20, example_span 30]"] run
  have "sorted (map ts [example_span 10, example_span 20, example_span 30])"
    by (elim impE conjE)
  with run show ?thesis by (rule conjI)
qed

end
